theory Spec2Isabelle
  imports Complex_Main
begin

section \<open>Data model of the puzzle component\<close>

text \<open>
  The component \<^verbatim>\<open>SokobanGame\<close> keeps its state in React state variables and refs.
  The model gathers them in one record. Every handler of the component runs to
  completion before the next one starts, so a handler is a function from the state
  before it to the state after it. Grid coordinates are integers; a grid cell is the
  one-character string the level parser produced, modelled as a \<open>char\<close>.
\<close>

record Point =
  pt_x :: int
  pt_y :: int

datatype MoveDirection = Up | Down | Left | Right

datatype SolverSearchMode = Fixed | Auto

datatype SolverSearchLimit = Limit25 | Limit35 | Limit35Plus

datatype SolvabilityStatus = Checking | Solvable | Unsolvable | Unknown | Error

datatype AutoSolveStatus = Idle | Finding | Playing

text \<open>A snapshot pushed by \<^verbatim>\<open>saveState\<close>: \<^verbatim>\<open>{ player, boxes, moveCount }\<close>.\<close>

record Snapshot =
  snap_player :: Point
  snap_boxes :: "Point list"
  snap_moveCount :: nat

text \<open>The argument of a solvability check: \<^verbatim>\<open>{ grid, player, boxes, goals }\<close>.\<close>

record GameState =
  gs_grid :: "char list list"
  gs_player :: Point
  gs_boxes :: "Point list"
  gs_goals :: "Point list"

text \<open>\<^verbatim>\<open>SolvabilityCheckOpts\<close>: every field is optional.\<close>

record SolvabilityCheckOpts =
  opt_hasUndo :: "bool option"
  opt_maxSteps :: "int option"
  opt_mode :: "SolverSearchMode option"
  opt_refreshSolution :: "bool option"

text \<open>
  A timer started by \<^verbatim>\<open>scheduleSolvabilityCheck\<close>: the callback's captured arguments,
  the delay in milliseconds, and the value of \<^verbatim>\<open>solverOptimal\<close> in the render that
  started the timer. The callback calls the \<^verbatim>\<open>checkSolvability\<close> of that render, which
  reads \<^verbatim>\<open>solverOptimal\<close> from its closure.
\<close>

record DebounceTimer =
  db_gameState :: GameState
  db_opts :: SolvabilityCheckOpts
  db_delay :: nat
  db_optimal :: bool

text \<open>
  One-shot timeouts that are never cleared:
  \<^verbatim>\<open>setTimeout(() => setShowVictoryModal(true), 500)\<close> and
  \<^verbatim>\<open>setTimeout(() => setShowAlertModal(true), 600)\<close>.
\<close>

datatype Timeout = ShowVictoryTimeout | ShowAlertTimeout

text \<open>
  The response of the oracle (\<^verbatim>\<open>SolvabilityResult\<close> of \<^verbatim>\<open>api.ts\<close>). The field
  \<^verbatim>\<open>solvable\<close> is compared with \<^verbatim>\<open>true\<close>, \<^verbatim>\<open>false\<close> and \<^verbatim>\<open>null\<close> in turn; a
  response without the field takes none of the three branches.
\<close>

datatype Solvable3 = SolvableTrue | SolvableFalse | SolvableNull | SolvableMissing

record SolverMeta =
  maxStepsUsed :: int
  elapsedMs :: real

record SolvabilityResult =
  res_solvable :: Solvable3
  res_error :: "string option"
  res_message :: "string option"
  res_hintMessage :: "string option"
  res_solution :: "string list option"
  res_solver :: "SolverMeta option"

text \<open>
  The state of the component. An \<^verbatim>\<open>AbortController\<close> is created once per solvability
  request, so a controller is identified with the id of its request:
  \<open>abortControllerRef\<close> holds the id of the controller in the ref and \<open>abortedSignals\<close>
  the ids of the controllers whose \<^verbatim>\<open>abort\<close> has been called.
\<close>

record Component =
  grid :: "char list list"
  player :: Point
  boxes :: "Point list"
  goals :: "Point list"
  moveCount :: nat
  moveHistory :: "Snapshot list"
  isCheckingSolvability :: bool
  solvabilityStatus :: "SolvabilityStatus option"
  cachedHintMessage :: "string option"
  cachedSolution :: "string list option"
  cachedSolutionTooLong :: bool
  solverSearchLimit :: SolverSearchLimit
  solverOptimal :: bool
  solverTimingsBySteps :: "int \<rightharpoonup> real"
  lastSolverMs :: "real option"
  lastSolverSteps :: "int option"
  abortControllerRef :: "nat option"
  abortedSignals :: "nat set"
  solvabilityRequestIdRef :: nat
  solvabilityDebounceTimerRef :: "DebounceTimer option"
  showVictoryModal :: bool
  showAlertModal :: bool
  alertTitle :: string
  alertMessage :: string
  isLoading :: bool
  solution :: "string list option"
  currentSolutionStep :: nat
  showSolution :: bool
  autoSolveStatus :: AutoSolveStatus
  autoSolveMoves :: "string list option"
  autoSolveIndex :: nat
  autoSolveTimerRef :: bool
  pendingTimeouts :: "Timeout list"

text \<open>
  What the continuation of one \<^verbatim>\<open>checkSolvability\<close> call keeps in its closure across
  the \<^verbatim>\<open>await\<close>: the request id (which also names its \<^verbatim>\<open>AbortController\<close>), the
  state sent to the oracle and the resolved options.
\<close>

record Request =
  req_id :: nat
  req_gameState :: GameState
  req_hasUndo :: bool
  req_mode :: SolverSearchMode
  req_startMaxSteps :: int
  req_refreshSolution :: bool
  req_optimal :: bool

section \<open>Solvability orchestration\<close>

definition MAX_SOLUTION_MOVES :: nat where
  "MAX_SOLUTION_MOVES = 250"

definition solverBaseMaxSteps :: "Component \<Rightarrow> int" where
  "solverBaseMaxSteps st = (if solverSearchLimit st = Limit25 then 25 else 35)"

definition solverMode :: "Component \<Rightarrow> SolverSearchMode" where
  "solverMode st = (if solverSearchLimit st = Limit35Plus then Auto else Fixed)"

text \<open>\<^verbatim>\<open>abortControllerRef.current.abort(...)\<close> when the ref holds a controller.\<close>

definition abortCurrent :: "Component \<Rightarrow> Component" where
  "abortCurrent st =
     (case abortControllerRef st of
        None \<Rightarrow> st
      | Some c \<Rightarrow> st\<lparr>abortedSignals := insert c (abortedSignals st)\<rparr>)"

text \<open>
  \<^verbatim>\<open>checkSolvability\<close> up to its \<^verbatim>\<open>await\<close>: it takes the next request id, aborts the
  previous controller, installs its own, marks the status as checking and empties the
  cache. The default of \<^verbatim>\<open>hasUndo\<close> reads \<^verbatim>\<open>moveHistory\<close>; every call site of the
  component passes \<^verbatim>\<open>hasUndo\<close>, \<^verbatim>\<open>mode\<close> and \<^verbatim>\<open>maxSteps\<close> explicitly.
\<close>

definition checkSolvability_start ::
  "GameState \<Rightarrow> SolvabilityCheckOpts \<Rightarrow> Component \<Rightarrow> Request \<times> Component" where
  "checkSolvability_start gameState opts st =
     (let requestId = Suc (solvabilityRequestIdRef st);
          st1 = abortCurrent (st\<lparr>solvabilityRequestIdRef := requestId\<rparr>);
          st2 = st1\<lparr>abortControllerRef := Some requestId\<rparr>;
          st3 = st2\<lparr>isCheckingSolvability := True,
                    solvabilityStatus := Some Checking,
                    cachedHintMessage := None,
                    cachedSolution := None,
                    cachedSolutionTooLong := False\<rparr>;
          hasUndo = (case opt_hasUndo opts of Some b \<Rightarrow> b | None \<Rightarrow> moveHistory st \<noteq> []);
          mode = (case opt_mode opts of Some m \<Rightarrow> m | None \<Rightarrow> solverMode st);
          startMaxSteps = (case opt_maxSteps opts of Some n \<Rightarrow> n | None \<Rightarrow> solverBaseMaxSteps st);
          refreshSolution = (case opt_refreshSolution opts of Some b \<Rightarrow> b | None \<Rightarrow> False)
      in (\<lparr>req_id = requestId, req_gameState = gameState, req_hasUndo = hasUndo,
           req_mode = mode, req_startMaxSteps = startMaxSteps,
           req_refreshSolution = refreshSolution, req_optimal = solverOptimal st\<rparr>,
          st3))"

text \<open>
  \<^verbatim>\<open>Math.round\<close> rounds halves up. The smoothing \<^verbatim>\<open>old * 0.7 + ms * 0.3\<close> is double
  arithmetic in the source and exact real arithmetic here; the results below only say
  when the table is written, never which number is stored.
\<close>

definition js_round :: "real \<Rightarrow> real" where
  "js_round r = of_int \<lfloor>r + 1 / 2\<rfloor>"

definition recordTiming :: "SolvabilityResult \<Rightarrow> Component \<Rightarrow> Component" where
  "recordTiming result st =
     (case res_solver result of
        None \<Rightarrow> st
      | Some m \<Rightarrow>
          (let used = maxStepsUsed m;
               ms = elapsedMs m;
               next = (case solverTimingsBySteps st used of
                         None \<Rightarrow> ms
                       | Some old \<Rightarrow> js_round (old * 0.7 + ms * 0.3))
           in st\<lparr>lastSolverMs := Some ms,
                  lastSolverSteps := Some used,
                  solverTimingsBySteps := (solverTimingsBySteps st)(used \<mapsto> next)\<rparr>))"

text \<open>The three resets shared by every branch of \<^verbatim>\<open>applyFinal\<close> but the solvable one.\<close>

definition clearCache :: "Component \<Rightarrow> Component" where
  "clearCache st =
     st\<lparr>cachedHintMessage := None, cachedSolution := None, cachedSolutionTooLong := False\<rparr>"

definition clearShownSolution :: "bool \<Rightarrow> Component \<Rightarrow> Component" where
  "clearShownSolution refreshSolution st =
     (if refreshSolution
      then st\<lparr>solution := None, showSolution := False, currentSolutionStep := 0\<rparr>
      else st)"

text \<open>A string is truthy when it is present and not empty.\<close>

definition truthy :: "string option \<Rightarrow> bool" where
  "truthy s = (case s of None \<Rightarrow> False | Some t \<Rightarrow> t \<noteq> [])"

definition applyFinal :: "Request \<Rightarrow> SolvabilityResult \<Rightarrow> Component \<Rightarrow> Component" where
  "applyFinal req result st =
     (case res_solvable result of
        SolvableTrue \<Rightarrow>
          (let st1 = st\<lparr>solvabilityStatus := Some Solvable, showAlertModal := False\<rparr>;
               st2 = (if truthy (res_hintMessage result)
                      then st1\<lparr>cachedHintMessage := res_hintMessage result\<rparr> else st1);
               st3 = (case res_solution result of
                        Some sol \<Rightarrow>
                          (if length sol > MAX_SOLUTION_MOVES
                           then st2\<lparr>cachedSolution := None, cachedSolutionTooLong := True\<rparr>
                           else st2\<lparr>cachedSolution := Some sol, cachedSolutionTooLong := False\<rparr>)
                      | None \<Rightarrow> st2\<lparr>cachedSolution := None, cachedSolutionTooLong := False\<rparr>)
           in if req_refreshSolution req
              then (case res_solution result of
                      Some sol \<Rightarrow>
                        (if length sol > MAX_SOLUTION_MOVES
                         then st3\<lparr>solution := None, currentSolutionStep := 0, showSolution := False\<rparr>
                         else st3\<lparr>solution := Some sol, currentSolutionStep := 0, showSolution := True\<rparr>)
                    | None \<Rightarrow> st3\<lparr>solution := None, currentSolutionStep := 0\<rparr>)
              else st3)
      | SolvableFalse \<Rightarrow>
          (let st1 = clearShownSolution (req_refreshSolution req)
                       (clearCache (st\<lparr>solvabilityStatus := Some Unsolvable\<rparr>));
               st2 = (if req_hasUndo req
                      then st1\<lparr>alertTitle := ''Deadlock!'',
                               alertMessage :=
                                 (if truthy (res_message result) then the (res_message result)
                                  else ''This move makes the puzzle unsolvable.'')
                                 @ '' Try using Undo.''\<rparr>
                      else st1\<lparr>alertTitle := ''Unsolvable!'',
                               alertMessage :=
                                 (if truthy (res_message result) then the (res_message result)
                                  else ''This puzzle is unsolvable from the start.'')
                                 @ '' Try another level.''\<rparr>)
           in st2\<lparr>pendingTimeouts := pendingTimeouts st2 @ [ShowAlertTimeout]\<rparr>)
      | SolvableNull \<Rightarrow>
          clearShownSolution (req_refreshSolution req)
            (clearCache (st\<lparr>solvabilityStatus := Some Unknown\<rparr>))
      | SolvableMissing \<Rightarrow>
          clearShownSolution (req_refreshSolution req)
            (clearCache (if res_error result \<noteq> Some ''Aborted''
                         then st\<lparr>solvabilityStatus := Some Error\<rparr> else st)))"

text \<open>
  The continuation of \<^verbatim>\<open>checkSolvability\<close> once the oracle has answered. In both modes
  the response is dropped when the request's own signal is aborted or when its id is
  no longer the latest one; otherwise the timing is recorded and the result applied.
  The \<^verbatim>\<open>finally\<close> block clears the checking flag for the latest request only.
\<close>

definition checkSolvability_resume ::
  "Request \<Rightarrow> SolvabilityResult \<Rightarrow> Component \<Rightarrow> Component" where
  "checkSolvability_resume req result st =
     (let st1 =
        (case req_mode req of
           Fixed \<Rightarrow>
             (let runOnce =
                (if req_id req \<in> abortedSignals st then None
                 else if req_id req \<noteq> solvabilityRequestIdRef st then None
                 else Some (recordTiming result st))
              in case runOnce of None \<Rightarrow> st | Some st' \<Rightarrow> applyFinal req result st')
         | Auto \<Rightarrow>
             (if req_id req \<in> abortedSignals st then st
              else if req_id req \<noteq> solvabilityRequestIdRef st then st
              else applyFinal req result (recordTiming result st)))
      in if req_id req = solvabilityRequestIdRef st1
         then st1\<lparr>isCheckingSolvability := False\<rparr> else st1)"

definition scheduleSolvabilityCheck ::
  "GameState \<Rightarrow> SolvabilityCheckOpts \<Rightarrow> nat \<Rightarrow> Component \<Rightarrow> Component" where
  "scheduleSolvabilityCheck gameState opts debounceMs st =
     (let st1 = st\<lparr>solvabilityDebounceTimerRef := None\<rparr>;
          st2 = abortCurrent st1
      in st2\<lparr>solvabilityDebounceTimerRef :=
               Some \<lparr>db_gameState = gameState, db_opts = opts, db_delay = debounceMs,
                     db_optimal = solverOptimal st\<rparr>\<rparr>)"

text \<open>
  The debounce timer fires: the ref is cleared and the check starts. The refs are read
  when the timer fires; \<^verbatim>\<open>solverOptimal\<close> is the value the timer captured. Every call
  site that schedules a check passes \<^verbatim>\<open>hasUndo\<close>, \<^verbatim>\<open>mode\<close> and \<^verbatim>\<open>maxSteps\<close>, so no
  other state is read from the closure.
\<close>

definition debounceFires :: "Component \<Rightarrow> (Request \<times> Component) option" where
  "debounceFires st =
     (case solvabilityDebounceTimerRef st of
        None \<Rightarrow> None
      | Some t \<Rightarrow>
          (case checkSolvability_start (db_gameState t) (db_opts t)
                  (st\<lparr>solvabilityDebounceTimerRef := None\<rparr>) of
             (req, st') \<Rightarrow> Some (req\<lparr>req_optimal := db_optimal t\<rparr>, st')))"

section \<open>Move execution and undo\<close>

definition isWall :: "char list list \<Rightarrow> int \<Rightarrow> int \<Rightarrow> bool" where
  "isWall g x y =
     (if y < 0 \<or> y \<ge> int (length g) then True
      else (let row = g ! nat y
            in if x < 0 \<or> x \<ge> int (length row) then True
               else row ! nat x = CHR ''#'' \<or> row ! nat x = CHR ''x''))"

fun delta :: "MoveDirection \<Rightarrow> Point" where
  "delta Up = \<lparr>pt_x = 0, pt_y = -1\<rparr>"
| "delta Down = \<lparr>pt_x = 0, pt_y = 1\<rparr>"
| "delta Left = \<lparr>pt_x = -1, pt_y = 0\<rparr>"
| "delta Right = \<lparr>pt_x = 1, pt_y = 0\<rparr>"

text \<open>The string by which a solution path names a direction.\<close>

fun dirName :: "MoveDirection \<Rightarrow> string" where
  "dirName Up = ''up''"
| "dirName Down = ''down''"
| "dirName Left = ''left''"
| "dirName Right = ''right''"

text \<open>\<^verbatim>\<open>Array.prototype.findIndex\<close>; \<open>None\<close> stands for the result \<^verbatim>\<open>-1\<close>.\<close>

fun findIndex :: "('a \<Rightarrow> bool) \<Rightarrow> 'a list \<Rightarrow> nat option" where
  "findIndex P [] = None"
| "findIndex P (a # as) = (if P a then Some 0 else map_option Suc (findIndex P as))"

definition atCell :: "int \<Rightarrow> int \<Rightarrow> Point \<Rightarrow> bool" where
  "atCell x y b = (pt_x b = x \<and> pt_y b = y)"

text \<open>The win predicate: \<^verbatim>\<open>boxes.every(box => goals.some(g => g.x === box.x && g.y === box.y))\<close>.\<close>

definition isWin :: "Point list \<Rightarrow> Point list \<Rightarrow> bool" where
  "isWin bs gs = list_all (\<lambda>box. list_ex (atCell (pt_x box) (pt_y box)) gs) bs"

definition saveState :: "Component \<Rightarrow> Component" where
  "saveState st =
     st\<lparr>moveHistory := moveHistory st @
          [\<lparr>snap_player = player st, snap_boxes = boxes st, snap_moveCount = moveCount st\<rparr>]\<rparr>"

text \<open>
  The tail of \<^verbatim>\<open>move\<close>: progress along the displayed solution. It reads the solution
  and step of the state in which the move started.
\<close>

definition updateSolutionProgress ::
  "MoveDirection \<Rightarrow> bool \<Rightarrow> string list option \<Rightarrow> nat \<Rightarrow> Component \<Rightarrow> Component" where
  "updateSolutionProgress direction shouldRefreshSolutionPath sol step st =
     (case sol of
        None \<Rightarrow> st
      | Some s \<Rightarrow>
          (if step < length s
           then (if s ! step = dirName direction
                 then st\<lparr>currentSolutionStep := Suc (currentSolutionStep st)\<rparr>
                 else if shouldRefreshSolutionPath
                      then st\<lparr>solution := None, currentSolutionStep := 0, showSolution := True\<rparr>
                      else st)
           else st))"

text \<open>
  \<^verbatim>\<open>move(direction, opts)\<close>. The result is the returned boolean and the state after the
  call; a rejected move returns the state it was given.
\<close>

definition move :: "MoveDirection \<Rightarrow> bool \<Rightarrow> Component \<Rightarrow> bool \<times> Component" where
  "move direction skipSolvabilityCheck st =
     (if showVictoryModal st \<or> isLoading st then (False, st)
      else
        (let shouldRefreshSolutionPath =
               (\<not> skipSolvabilityCheck \<and>
                (case solution st of
                   None \<Rightarrow> False
                 | Some s \<Rightarrow> currentSolutionStep st < length s \<and>
                             s ! currentSolutionStep st \<noteq> dirName direction));
             d = delta direction;
             newX = pt_x (player st) + pt_x d;
             newY = pt_y (player st) + pt_y d;
             checkOpts = \<lparr>opt_hasUndo = Some True, opt_maxSteps = Some (solverBaseMaxSteps st),
                          opt_mode = Some (solverMode st),
                          opt_refreshSolution = Some shouldRefreshSolutionPath\<rparr>
         in if isWall (grid st) newX newY then (False, st)
            else
              (case findIndex (atCell newX newY) (boxes st) of
                 Some boxIndex \<Rightarrow>
                   (let boxNewX = newX + pt_x d;
                        boxNewY = newY + pt_y d
                    in if boxNewY < 0 \<or> boxNewY \<ge> int (length (grid st)) \<or>
                          isWall (grid st) boxNewX boxNewY \<or>
                          list_ex (atCell boxNewX boxNewY) (boxes st)
                       then (False, st)
                       else
                         (let st1 = saveState st;
                              newBoxes = (boxes st)[boxIndex := \<lparr>pt_x = boxNewX, pt_y = boxNewY\<rparr>];
                              st2 = st1\<lparr>boxes := newBoxes,
                                        player := \<lparr>pt_x = newX, pt_y = newY\<rparr>,
                                        moveCount := Suc (moveCount st1)\<rparr>;
                              st3 = (if isWin newBoxes (goals st)
                                     then st2\<lparr>pendingTimeouts :=
                                                pendingTimeouts st2 @ [ShowVictoryTimeout]\<rparr>
                                     else if \<not> skipSolvabilityCheck
                                          then scheduleSolvabilityCheck
                                                 \<lparr>gs_grid = grid st,
                                                  gs_player = \<lparr>pt_x = newX, pt_y = newY\<rparr>,
                                                  gs_boxes = newBoxes, gs_goals = goals st\<rparr>
                                                 checkOpts
                                                 (if shouldRefreshSolutionPath then 50 else 80) st2
                                          else st2)
                          in (True, updateSolutionProgress direction shouldRefreshSolutionPath
                                      (solution st) (currentSolutionStep st) st3)))
               | None \<Rightarrow>
                   (let st1 = saveState st;
                        st2 = st1\<lparr>player := \<lparr>pt_x = newX, pt_y = newY\<rparr>,
                                  moveCount := Suc (moveCount st1)\<rparr>;
                        st3 = (if \<not> skipSolvabilityCheck
                               then scheduleSolvabilityCheck
                                      \<lparr>gs_grid = grid st,
                                       gs_player = \<lparr>pt_x = newX, pt_y = newY\<rparr>,
                                       gs_boxes = boxes st, gs_goals = goals st\<rparr>
                                      checkOpts
                                      (if shouldRefreshSolutionPath then 50 else 250) st2
                               else st2)
                    in (True, updateSolutionProgress direction shouldRefreshSolutionPath
                                (solution st) (currentSolutionStep st) st3)))))"

definition stopAutoSolve :: "Component \<Rightarrow> Component" where
  "stopAutoSolve st =
     st\<lparr>autoSolveTimerRef := False, autoSolveStatus := Idle,
        autoSolveMoves := None, autoSolveIndex := 0\<rparr>"

text \<open>
  \<^verbatim>\<open>undoMove\<close>. It stops auto-solve and cancels the pending debounce first; with an empty
  history it then returns. Otherwise it restores the last snapshot, drops it from the
  history and starts a solvability check of the restored state.
\<close>

definition undoMove :: "Component \<Rightarrow> Request option \<times> Component" where
  "undoMove st =
     (let st1 = (stopAutoSolve st)\<lparr>solvabilityDebounceTimerRef := None\<rparr>
      in if moveHistory st = [] then (None, st1)
         else
           (let lastState = last (moveHistory st);
                st2 = st1\<lparr>player := snap_player lastState,
                          boxes := snap_boxes lastState,
                          moveCount := snap_moveCount lastState,
                          moveHistory := butlast (moveHistory st1)\<rparr>;
                remainingHistory = length (moveHistory st) - 1;
                (req, st3) = checkSolvability_start
                               \<lparr>gs_grid = grid st, gs_player = snap_player lastState,
                                gs_boxes = snap_boxes lastState, gs_goals = goals st\<rparr>
                               \<lparr>opt_hasUndo = Some (remainingHistory > 0),
                                opt_maxSteps = Some (solverBaseMaxSteps st),
                                opt_mode = Some (solverMode st),
                                opt_refreshSolution = None\<rparr>
                               st2
            in (Some req, st3)))"

text \<open>A pending one-shot timeout fires.\<close>

definition timeoutFires :: "Timeout \<Rightarrow> Component \<Rightarrow> Component" where
  "timeoutFires t st =
     (if t \<in> set (pendingTimeouts st)
      then (let st1 = st\<lparr>pendingTimeouts := remove1 t (pendingTimeouts st)\<rparr>
            in case t of
                 ShowVictoryTimeout \<Rightarrow> st1\<lparr>showVictoryModal := True\<rparr>
               | ShowAlertTimeout \<Rightarrow> st1\<lparr>showAlertModal := True\<rparr>)
      else st)"

section \<open>Levels\<close>

text \<open>
  The fields of \<^verbatim>\<open>ParsedLevel\<close> that the parser and the generator compute. The fields
  \<^verbatim>\<open>id\<close>, \<^verbatim>\<open>name\<close>, \<^verbatim>\<open>difficulty\<close> and \<^verbatim>\<open>grid\<close> are copied from the input and are
  left out.
\<close>

record ParsedLevel =
  parsedGrid :: "char list list"
  initialPlayer :: Point
  initialBoxes :: "Point list"
  lvl_goals :: "Point list"

text \<open>The values the component's state variables and refs start with.\<close>

definition initialComponent :: Component where
  "initialComponent =
     \<lparr>grid = [], player = \<lparr>pt_x = 0, pt_y = 0\<rparr>, boxes = [], goals = [],
      moveCount = 0, moveHistory = [],
      isCheckingSolvability = False, solvabilityStatus = None,
      cachedHintMessage = None, cachedSolution = None, cachedSolutionTooLong = False,
      solverSearchLimit = Limit35Plus, solverOptimal = False,
      solverTimingsBySteps = Map.empty, lastSolverMs = None, lastSolverSteps = None,
      abortControllerRef = None, abortedSignals = {}, solvabilityRequestIdRef = 0,
      solvabilityDebounceTimerRef = None,
      showVictoryModal = False, showAlertModal = False,
      alertTitle = ''Puzzle Unsolvable!'',
      alertMessage = ''The current state cannot lead to a solution.'',
      isLoading = False,
      solution = None, currentSolutionStep = 0, showSolution = False,
      autoSolveStatus = Idle, autoSolveMoves = None, autoSolveIndex = 0,
      autoSolveTimerRef = False, pendingTimeouts = []\<rparr>"

text \<open>\<^verbatim>\<open>initializeLevel\<close>: the state is replaced by the level's and a first check starts.\<close>

definition initializeLevel :: "ParsedLevel \<Rightarrow> Component \<Rightarrow> Request \<times> Component" where
  "initializeLevel level st =
     (let st1 = st\<lparr>solvabilityDebounceTimerRef := None\<rparr>;
          st2 = stopAutoSolve st1;
          st3 = st2\<lparr>grid := parsedGrid level, player := initialPlayer level,
                    boxes := initialBoxes level, goals := lvl_goals level,
                    moveCount := 0, moveHistory := [],
                    solvabilityStatus := Some Checking,
                    showVictoryModal := False, showAlertModal := False,
                    alertTitle := ''Puzzle Unsolvable!'',
                    alertMessage := ''The current state cannot lead to a solution.'',
                    solution := None, currentSolutionStep := 0, showSolution := False\<rparr>
      in checkSolvability_start
           \<lparr>gs_grid = parsedGrid level, gs_player = initialPlayer level,
            gs_boxes = initialBoxes level, gs_goals = lvl_goals level\<rparr>
           \<lparr>opt_hasUndo = Some False, opt_maxSteps = Some (solverBaseMaxSteps st),
            opt_mode = Some (solverMode st), opt_refreshSolution = None\<rparr>
           st3)"

section \<open>Vocabulary of the properties\<close>

text \<open>The cell one step from \<open>p\<close> in a direction.\<close>

definition step :: "MoveDirection \<Rightarrow> Point \<Rightarrow> Point" where
  "step dir p = \<lparr>pt_x = pt_x p + pt_x (delta dir), pt_y = pt_y p + pt_y (delta dir)\<rparr>"

text \<open>
  A cell is in bounds when its row exists and the row is long enough (rows may be
  ragged). A cell is impassable when it is out of bounds, a wall \<^verbatim>\<open>#\<close> or void \<^verbatim>\<open>x\<close>.
\<close>

definition inBounds :: "char list list \<Rightarrow> Point \<Rightarrow> bool" where
  "inBounds g p =
     (0 \<le> pt_y p \<and> pt_y p < int (length g) \<and>
      0 \<le> pt_x p \<and> pt_x p < int (length (g ! nat (pt_y p))))"

definition cellAt :: "char list list \<Rightarrow> Point \<Rightarrow> char" where
  "cellAt g p = g ! nat (pt_y p) ! nat (pt_x p)"

definition impassable :: "char list list \<Rightarrow> Point \<Rightarrow> bool" where
  "impassable g p =
     (\<not> inBounds g p \<or> cellAt g p = CHR ''#'' \<or> cellAt g p = CHR ''x'')"

text \<open>The puzzle part of the state, which the move and undo properties speak about.\<close>

definition puzzle :: "Component \<Rightarrow> Point \<times> Point list \<times> nat \<times> Snapshot list" where
  "puzzle st = (player st, boxes st, moveCount st, moveHistory st)"

definition snapshotOf :: "Component \<Rightarrow> Snapshot" where
  "snapshotOf st =
     \<lparr>snap_player = player st, snap_boxes = boxes st, snap_moveCount = moveCount st\<rparr>"

text \<open>
  A run of moves that all succeed: \<open>Some\<close> of the final state, or \<open>None\<close> as soon as
  one move is rejected. Each move comes with its \<^verbatim>\<open>skipSolvabilityCheck\<close> option.
\<close>

fun movesOk :: "(MoveDirection \<times> bool) list \<Rightarrow> Component \<Rightarrow> Component option" where
  "movesOk [] st = Some st"
| "movesOk ((d, skip) # ms) st =
     (case move d skip st of
        (True, st') \<Rightarrow> movesOk ms st'
      | (False, _) \<Rightarrow> None)"

definition undos :: "nat \<Rightarrow> Component \<Rightarrow> Component" where
  "undos n st = ((\<lambda>s. snd (undoMove s)) ^^ n) st"

text \<open>
  Two small levels for the concrete checks: the room \<^verbatim>\<open>#@$. #\<close> between two rows of
  wall, and the room \<^verbatim>\<open>#@ *#\<close> whose only box starts on the only goal. Each is the
  state right after \<^verbatim>\<open>initializeLevel\<close>.
\<close>

definition roomLevel :: ParsedLevel where
  "roomLevel =
     \<lparr>parsedGrid = [''######'', ''#  . #'', ''######''],
      initialPlayer = \<lparr>pt_x = 1, pt_y = 1\<rparr>,
      initialBoxes = [\<lparr>pt_x = 2, pt_y = 1\<rparr>],
      lvl_goals = [\<lparr>pt_x = 3, pt_y = 1\<rparr>]\<rparr>"

definition roomStart :: Component where
  "roomStart = snd (initializeLevel roomLevel initialComponent)"

definition solvedLevel :: ParsedLevel where
  "solvedLevel =
     \<lparr>parsedGrid = [''#####'', ''#  .#'', ''#####''],
      initialPlayer = \<lparr>pt_x = 1, pt_y = 1\<rparr>,
      initialBoxes = [\<lparr>pt_x = 3, pt_y = 1\<rparr>],
      lvl_goals = [\<lparr>pt_x = 3, pt_y = 1\<rparr>]\<rparr>"

definition solvedStart :: Component where
  "solvedStart = snd (initializeLevel solvedLevel initialComponent)"

text \<open>
  The room after the winning push to the right, once the victory timeout has fired and
  the modal is shown.
\<close>

definition roomWon :: Component where
  "roomWon = timeoutFires ShowVictoryTimeout (snd (move Right False roomStart))"

section \<open>Handlers as events\<close>

text \<open>
  The handlers modelled above, as events that may reach the component in any order.
  \<open>EvCheck\<close> is a direct call of \<^verbatim>\<open>checkSolvability\<close> (as the settings and auto-solve
  handlers make), \<open>EvDebounce\<close> the firing of the debounce timer, \<open>EvResponse\<close> the
  arrival of the oracle's answer to a request, \<open>EvTimeout\<close> the firing of a one-shot
  timeout.
\<close>

datatype Event =
    EvMove MoveDirection bool
  | EvUndo
  | EvCheck GameState SolvabilityCheckOpts
  | EvDebounce
  | EvResponse Request SolvabilityResult
  | EvTimeout Timeout
  | EvInitLevel ParsedLevel

fun applyEvent :: "Event \<Rightarrow> Component \<Rightarrow> Component" where
  "applyEvent (EvMove d skip) st = snd (move d skip st)"
| "applyEvent EvUndo st = snd (undoMove st)"
| "applyEvent (EvCheck gs opts) st = snd (checkSolvability_start gs opts st)"
| "applyEvent EvDebounce st = (case debounceFires st of None \<Rightarrow> st | Some (r, st') \<Rightarrow> st')"
| "applyEvent (EvResponse r res) st = checkSolvability_resume r res st"
| "applyEvent (EvTimeout t) st = timeoutFires t st"
| "applyEvent (EvInitLevel l) st = snd (initializeLevel l st)"

fun run :: "Event list \<Rightarrow> Component \<Rightarrow> Component" where
  "run [] st = st"
| "run (e # es) st = run es (applyEvent e st)"

text \<open>
  A response is dropped when its request is not the latest one or its signal is aborted.
\<close>

definition dropped :: "Request \<Rightarrow> Component \<Rightarrow> bool" where
  "dropped r st = (req_id r \<noteq> solvabilityRequestIdRef st \<or> req_id r \<in> abortedSignals st)"

text \<open>
  A run during which the latest query stays in flight: every answer that arrives is a
  dropped one.
\<close>

fun inFlight :: "Event list \<Rightarrow> Component \<Rightarrow> bool" where
  "inFlight [] st = True"
| "inFlight (EvResponse r res # es) st =
     (dropped r st \<and> inFlight es (checkSolvability_resume r res st))"
| "inFlight (e # es) st = inFlight es (applyEvent e st)"

text \<open>The cache is empty and the status is checking.\<close>

definition cacheReset :: "Component \<Rightarrow> bool" where
  "cacheReset st =
     (cachedHintMessage st = None \<and> cachedSolution st = None \<and>
      \<not> cachedSolutionTooLong st \<and> solvabilityStatus st = Some Checking)"

text \<open>What a dropped response must leave alone.\<close>

definition solverView ::
  "Component \<Rightarrow> SolvabilityStatus option \<times> string option \<times> string list option \<times> bool \<times>
     string list option \<times> nat \<times> bool \<times> (int \<rightharpoonup> real) \<times> real option \<times> int option" where
  "solverView st =
     (solvabilityStatus st, cachedHintMessage st, cachedSolution st, cachedSolutionTooLong st,
      solution st, currentSolutionStep st, showSolution st,
      solverTimingsBySteps st, lastSolverMs st, lastSolverSteps st)"

text \<open>Concrete arguments for the checks of the orchestration results.\<close>

definition roomGame :: GameState where
  "roomGame =
     \<lparr>gs_grid = grid roomStart, gs_player = player roomStart,
      gs_boxes = boxes roomStart, gs_goals = goals roomStart\<rparr>"

definition fixedOpts :: SolvabilityCheckOpts where
  "fixedOpts =
     \<lparr>opt_hasUndo = Some False, opt_maxSteps = Some 35, opt_mode = Some Fixed,
      opt_refreshSolution = Some True\<rparr>"

definition sampleResult :: SolvabilityResult where
  "sampleResult =
     \<lparr>res_solvable = SolvableTrue, res_error = None, res_message = None,
      res_hintMessage = Some ''Try moving right!'', res_solution = Some [''right''],
      res_solver = Some \<lparr>maxStepsUsed = 35, elapsedMs = 1200\<rparr>\<rparr>"

section \<open>The level parser\<close>

text \<open>
  \<^verbatim>\<open>parseLevel\<close> reads the rows of \<^verbatim>\<open>level.grid\<close>. The width is the largest row length;
  for an empty grid the source computes \<^verbatim>\<open>Math.max()\<close>, which is \<^verbatim>\<open>-Infinity\<close>, and then runs
  no loop at all since the height is 0: the model takes width 0 there, with the same
  effect.
\<close>

definition levelWidth :: "string list \<Rightarrow> nat" where
  "levelWidth rows = foldr max (map length rows) 0"

text \<open>The rectangular grid of raw characters: short rows are padded with spaces.\<close>

definition buildRawGrid :: "string list \<Rightarrow> char list list" where
  "buildRawGrid rows =
     map (\<lambda>rowStr. map (\<lambda>x. if x < length rowStr then rowStr ! x else CHR '' '')
                       [0..<levelWidth rows])
         rows"

text \<open>
  The array \<^verbatim>\<open>isVoid\<close> has one boolean for each cell of the rectangle and is read and
  written only after the bounds test of \<^verbatim>\<open>enqueueIfVoidSpace\<close>, or inside the loops over
  the rectangle. It is modelled as a function from row and column to \<open>bool\<close>, so
  \<^verbatim>\<open>isVoid[y][x]\<close> is \<open>isVoid y x\<close>. The state of the flood fill is the array and the queue.
\<close>

type_synonym VoidMap = "int \<Rightarrow> int \<Rightarrow> bool"

definition enqueueIfVoidSpace ::
  "int \<Rightarrow> int \<Rightarrow> char list list \<Rightarrow> int \<Rightarrow> int \<Rightarrow>
     VoidMap \<times> (int \<times> int) list \<Rightarrow> VoidMap \<times> (int \<times> int) list" where
  "enqueueIfVoidSpace width height rawGrid x y s =
     (if x < 0 \<or> x \<ge> width \<or> y < 0 \<or> y \<ge> height then s
      else if fst s y x then s
      else if rawGrid ! nat y ! nat x \<noteq> CHR '' '' then s
      else ((fst s)(y := (fst s y)(x := True)), snd s @ [(x, y)]))"

text \<open>The two seeding loops: top and bottom rows, then left and right columns.\<close>

definition seedTopBottom ::
  "int \<Rightarrow> int \<Rightarrow> char list list \<Rightarrow> VoidMap \<times> (int \<times> int) list \<Rightarrow> VoidMap \<times> (int \<times> int) list" where
  "seedTopBottom width height rawGrid s =
     fold (\<lambda>x s. enqueueIfVoidSpace width height rawGrid x (height - 1)
                    (enqueueIfVoidSpace width height rawGrid x 0 s))
          [0..width - 1] s"

definition seedLeftRight ::
  "int \<Rightarrow> int \<Rightarrow> char list list \<Rightarrow> VoidMap \<times> (int \<times> int) list \<Rightarrow> VoidMap \<times> (int \<times> int) list" where
  "seedLeftRight width height rawGrid s =
     fold (\<lambda>y s. enqueueIfVoidSpace width height rawGrid (width - 1) y
                    (enqueueIfVoidSpace width height rawGrid 0 y s))
          [0..height - 1] s"

text \<open>One round of the \<^verbatim>\<open>while\<close> loop after the head of the queue has been taken off.\<close>

definition enqueueNeighbours ::
  "int \<Rightarrow> int \<Rightarrow> char list list \<Rightarrow> int \<Rightarrow> int \<Rightarrow>
     VoidMap \<times> (int \<times> int) list \<Rightarrow> VoidMap \<times> (int \<times> int) list" where
  "enqueueNeighbours width height rawGrid x y s =
     enqueueIfVoidSpace width height rawGrid x (y + 1)
       (enqueueIfVoidSpace width height rawGrid x (y - 1)
         (enqueueIfVoidSpace width height rawGrid (x + 1) y
           (enqueueIfVoidSpace width height rawGrid (x - 1) y s)))"

text \<open>The number of cells of the rectangle not yet marked: it bounds the loop.\<close>

definition unmarked :: "int \<Rightarrow> int \<Rightarrow> VoidMap \<Rightarrow> (int \<times> int) set" where
  "unmarked width height isVoid =
     {p \<in> {0..<width} \<times> {0..<height}. \<not> isVoid (snd p) (fst p)}"

function floodFill ::
  "int \<Rightarrow> int \<Rightarrow> char list list \<Rightarrow> VoidMap \<times> (int \<times> int) list \<Rightarrow> VoidMap" where
  "floodFill width height rawGrid (isVoid, []) = isVoid"
| "floodFill width height rawGrid (isVoid, (x, y) # queue) =
     floodFill width height rawGrid (enqueueNeighbours width height rawGrid x y (isVoid, queue))"
  by pat_completeness auto
termination
proof (relation "measure (\<lambda>(width, height, rawGrid, s).
                    2 * card (unmarked width height (fst s)) + length (snd s))")
  show "wf (measure (\<lambda>(width, height, rawGrid, s).
                    2 * card (unmarked width height (fst s)) + length (snd s)))"
    by simp
next
  fix width height :: int and rawGrid :: "char list list" and isVoid :: VoidMap
    and x y :: int and queue :: "(int \<times> int) list"
  let ?m = "\<lambda>s. 2 * card (unmarked width height (fst s)) + length (snd s)"
  have fin: "\<And>iv. finite (unmarked width height iv)"
    by (simp add: unmarked_def)
  have step: "\<And>a b s. ?m (enqueueIfVoidSpace width height rawGrid a b s) \<le> ?m s"
  proof -
    fix a b :: int and s :: "VoidMap \<times> (int \<times> int) list"
    show "?m (enqueueIfVoidSpace width height rawGrid a b s) \<le> ?m s"
    proof (cases "enqueueIfVoidSpace width height rawGrid a b s = s")
      case True
      then show ?thesis by simp
    next
      case False
      then have in_range: "0 \<le> a" "a < width" "0 \<le> b" "b < height" and fresh: "\<not> fst s b a"
        and res: "enqueueIfVoidSpace width height rawGrid a b s =
                    ((fst s)(b := (fst s b)(a := True)), snd s @ [(a, b)])"
        by (auto simp add: enqueueIfVoidSpace_def split: if_splits)
      have "unmarked width height ((fst s)(b := (fst s b)(a := True))) =
              unmarked width height (fst s) - {(a, b)}"
        by (auto simp add: unmarked_def)
      moreover have "(a, b) \<in> unmarked width height (fst s)"
        using in_range fresh by (simp add: unmarked_def)
      ultimately have "Suc (card (unmarked width height ((fst s)(b := (fst s b)(a := True))))) =
              card (unmarked width height (fst s))"
        using fin[of "fst s"] card_Suc_Diff1[of "unmarked width height (fst s)" "(a, b)"] by simp
      with res show ?thesis by simp
    qed
  qed
  have "?m (enqueueNeighbours width height rawGrid x y (isVoid, queue)) \<le> ?m (isVoid, queue)"
    unfolding enqueueNeighbours_def
    by (rule order_trans[OF step] order_trans[OF step] order_trans[OF step] step)+
  then show "((width, height, rawGrid, enqueueNeighbours width height rawGrid x y (isVoid, queue)),
              (width, height, rawGrid, isVoid, (x, y) # queue))
             \<in> measure (\<lambda>(width, height, rawGrid, s).
                    2 * card (unmarked width height (fst s)) + length (snd s))"
    by simp
qed

text \<open>
  The translation loop. One cell appends a character to the row under construction and
  may record a box, a goal or the player; a void blank becomes \<^verbatim>\<open>x\<close> before the switch
  is reached.
\<close>

record ParseAcc =
  acc_gridRow :: "char list"
  acc_boxes :: "Point list"
  acc_goals :: "Point list"
  acc_player :: Point

definition parseCell :: "VoidMap \<Rightarrow> char list list \<Rightarrow> nat \<Rightarrow> nat \<Rightarrow> ParseAcc \<Rightarrow> ParseAcc" where
  "parseCell isVoid rawGrid y x acc =
     (let char = rawGrid ! y ! x;
          here = \<lparr>pt_x = int x, pt_y = int y\<rparr>;
          push = (\<lambda>c a. a\<lparr>acc_gridRow := acc_gridRow a @ [c]\<rparr>)
      in if char = CHR '' '' \<and> isVoid (int y) (int x) then push CHR ''x'' acc
         else if char = CHR ''#'' then push CHR ''#'' acc
         else if char = CHR '' '' then push CHR '' '' acc
         else if char = CHR ''.'' then (push CHR ''.'' acc)\<lparr>acc_goals := acc_goals acc @ [here]\<rparr>
         else if char = CHR ''@'' then (push CHR '' '' acc)\<lparr>acc_player := here\<rparr>
         else if char = CHR ''$'' then (push CHR '' '' acc)\<lparr>acc_boxes := acc_boxes acc @ [here]\<rparr>
         else if char = CHR ''*'' then
           (push CHR ''.'' acc)\<lparr>acc_boxes := acc_boxes acc @ [here],
                                 acc_goals := acc_goals acc @ [here]\<rparr>
         else if char = CHR ''+'' then
           (push CHR ''.'' acc)\<lparr>acc_player := here, acc_goals := acc_goals acc @ [here]\<rparr>
         else push CHR '' '' acc)"

definition parseRow ::
  "VoidMap \<Rightarrow> char list list \<Rightarrow> nat \<Rightarrow> nat \<Rightarrow> char list list \<times> ParseAcc \<Rightarrow> char list list \<times> ParseAcc" where
  "parseRow isVoid rawGrid width y s =
     (let acc = fold (parseCell isVoid rawGrid y) [0..<width] ((snd s)\<lparr>acc_gridRow := []\<rparr>)
      in (fst s @ [acc_gridRow acc], acc))"

definition voidCells :: "string list \<Rightarrow> VoidMap" where
  "voidCells rows =
     (let height = int (length rows);
          width = int (levelWidth rows);
          rawGrid = buildRawGrid rows
      in floodFill width height rawGrid
           (seedLeftRight width height rawGrid
              (seedTopBottom width height rawGrid (\<lambda>y x. False, []))))"

definition parseLevel :: "string list \<Rightarrow> ParsedLevel" where
  "parseLevel rows =
     (let s = fold (parseRow (voidCells rows) (buildRawGrid rows) (levelWidth rows))
                   [0..<length rows]
                   ([], \<lparr>acc_gridRow = [], acc_boxes = [], acc_goals = [],
                         acc_player = \<lparr>pt_x = 0, pt_y = 0\<rparr>\<rparr>)
      in \<lparr>parsedGrid = fst s, initialPlayer = acc_player (snd s),
          initialBoxes = acc_boxes (snd s), lvl_goals = acc_goals (snd s)\<rparr>)"

text \<open>
  Vocabulary for the parser's properties, in terms of the level text alone. The raw
  character of a cell of the rectangle is the character of the text, or a space where
  the row is too short. A blank is a cell of the rectangle whose raw character is a
  space. The exterior is the least set of blanks that contains the blanks on the outer
  boundary and is closed under stepping to an orthogonally adjacent blank.
\<close>

definition inRect :: "string list \<Rightarrow> int \<Rightarrow> int \<Rightarrow> bool" where
  "inRect rows x y = (0 \<le> x \<and> x < int (levelWidth rows) \<and> 0 \<le> y \<and> y < int (length rows))"

definition rawCell :: "string list \<Rightarrow> int \<Rightarrow> int \<Rightarrow> char" where
  "rawCell rows x y =
     (if nat x < length (rows ! nat y) then rows ! nat y ! nat x else CHR '' '')"

definition blank :: "string list \<Rightarrow> int \<Rightarrow> int \<Rightarrow> bool" where
  "blank rows x y = (inRect rows x y \<and> rawCell rows x y = CHR '' '')"

definition onBoundary :: "string list \<Rightarrow> int \<Rightarrow> int \<Rightarrow> bool" where
  "onBoundary rows x y =
     (x = 0 \<or> x = int (levelWidth rows) - 1 \<or> y = 0 \<or> y = int (length rows) - 1)"

inductive exterior :: "string list \<Rightarrow> int \<Rightarrow> int \<Rightarrow> bool" for rows :: "string list" where
  seed: "blank rows x y \<Longrightarrow> onBoundary rows x y \<Longrightarrow> exterior rows x y"
| left: "exterior rows x y \<Longrightarrow> blank rows (x - 1) y \<Longrightarrow> exterior rows (x - 1) y"
| right: "exterior rows x y \<Longrightarrow> blank rows (x + 1) y \<Longrightarrow> exterior rows (x + 1) y"
| up: "exterior rows x y \<Longrightarrow> blank rows x (y - 1) \<Longrightarrow> exterior rows x (y - 1)"
| down: "exterior rows x y \<Longrightarrow> blank rows x (y + 1) \<Longrightarrow> exterior rows x (y + 1)"

text \<open>A level text has a player symbol when some row contains \<^verbatim>\<open>@\<close> or \<^verbatim>\<open>+\<close>.\<close>

definition hasPlayerSymbol :: "string list \<Rightarrow> bool" where
  "hasPlayerSymbol rows = list_ex (\<lambda>row. CHR ''@'' \<in> set row \<or> CHR ''+'' \<in> set row) rows"

text \<open>
  The invariants of the flood fill, for the proofs: every marked cell is in the
  exterior and every queued cell is marked; and every marked cell is still queued or
  has all its blank neighbours marked.
\<close>

abbreviation enq :: "string list \<Rightarrow> int \<Rightarrow> int \<Rightarrow> VoidMap \<times> (int \<times> int) list \<Rightarrow> VoidMap \<times> (int \<times> int) list" where
  "enq rows \<equiv> enqueueIfVoidSpace (int (levelWidth rows)) (int (length rows)) (buildRawGrid rows)"

definition neighbours :: "int \<Rightarrow> int \<Rightarrow> (int \<times> int) list" where
  "neighbours x y = [(x - 1, y), (x + 1, y), (x, y - 1), (x, y + 1)]"

definition fillSound :: "string list \<Rightarrow> VoidMap \<times> (int \<times> int) list \<Rightarrow> bool" where
  "fillSound rows s =
     ((\<forall>x y. fst s y x \<longrightarrow> exterior rows x y) \<and> (\<forall>p \<in> set (snd s). fst s (snd p) (fst p)))"

definition closedAt :: "string list \<Rightarrow> VoidMap \<Rightarrow> int \<Rightarrow> int \<Rightarrow> bool" where
  "closedAt rows isVoid x y =
     (\<forall>p \<in> set (neighbours x y). blank rows (fst p) (snd p) \<longrightarrow> isVoid (snd p) (fst p))"

definition fillClosed :: "string list \<Rightarrow> VoidMap \<times> (int \<times> int) list \<Rightarrow> bool" where
  "fillClosed rows s =
     (\<forall>x y. fst s y x \<longrightarrow> (x, y) \<in> set (snd s) \<or> closedAt rows (fst s) x y)"

definition seedsMarked :: "string list \<Rightarrow> VoidMap \<Rightarrow> bool" where
  "seedsMarked rows isVoid =
     (\<forall>x y. blank rows x y \<and> onBoundary rows x y \<longrightarrow> isVoid y x)"

text \<open>The state of the flood fill after the two seeding loops.\<close>

definition seeded :: "string list \<Rightarrow> VoidMap \<times> (int \<times> int) list" where
  "seeded rows = seedLeftRight (int (levelWidth rows)) (int (length rows)) (buildRawGrid rows)
                   (seedTopBottom (int (levelWidth rows)) (int (length rows)) (buildRawGrid rows)
                      (\<lambda>y x. False, []))"

text \<open>
  For the proofs: the character that the translation loop writes for a raw character
  and its void flag, and the cells that hold a player symbol.
\<close>

definition outChar :: "char \<Rightarrow> bool \<Rightarrow> char" where
  "outChar c v =
     (if c = CHR '' '' \<and> v then CHR ''x''
      else if c = CHR ''#'' then CHR ''#''
      else if c = CHR ''.'' \<or> c = CHR ''*'' \<or> c = CHR ''+'' then CHR ''.''
      else CHR '' '')"

definition playerCell :: "string list \<Rightarrow> Point \<Rightarrow> bool" where
  "playerCell rows p =
     (inRect rows (pt_x p) (pt_y p) \<and>
      (rawCell rows (pt_x p) (pt_y p) = CHR ''@'' \<or> rawCell rows (pt_x p) (pt_y p) = CHR ''+''))"

text \<open>
  Level texts for the concrete checks: one without a player symbol, and one with blanks
  outside the room, a blank inside it and a box on a goal.
\<close>

definition noPlayerRows :: "string list" where
  "noPlayerRows = [''#####'', ''# $.#'', ''#####'']"

definition islandRows :: "string list" where
  "islandRows = [''  ####'', ''###  #'', ''#@*  #'', ''# ####'', ''###'']"

abbreviation enqN :: "string list \<Rightarrow> int \<Rightarrow> int \<Rightarrow> VoidMap \<times> (int \<times> int) list \<Rightarrow> VoidMap \<times> (int \<times> int) list" where
  "enqN rows \<equiv> enqueueNeighbours (int (levelWidth rows)) (int (length rows)) (buildRawGrid rows)"

section \<open>The level generator\<close>

text \<open>
  \<^verbatim>\<open>generateRandomLevel\<close> draws from \<^verbatim>\<open>Math.random\<close>. The model takes the sequence of draws
  as a parameter \<open>rng\<close> and threads the number of draws made so far; a draw
  \<^verbatim>\<open>Math.floor(Math.random() * k)\<close> is the next number of the sequence modulo \<open>k\<close>, so every
  outcome in \<open>0, ..., k - 1\<close> can occur at every draw.
\<close>

datatype Difficulty = Easy | Medium | Hard

record GenConfig =
  cfg_width :: int
  cfg_height :: int
  cfg_boxes :: nat
  cfg_moves :: nat

fun configs :: "Difficulty \<Rightarrow> GenConfig" where
  "configs Easy = \<lparr>cfg_width = 8, cfg_height = 7, cfg_boxes = 1, cfg_moves = 30\<rparr>"
| "configs Medium = \<lparr>cfg_width = 10, cfg_height = 8, cfg_boxes = 2, cfg_moves = 40\<rparr>"
| "configs Hard = \<lparr>cfg_width = 12, cfg_height = 10, cfg_boxes = 3, cfg_moves = 50\<rparr>"

definition draw :: "(nat \<Rightarrow> nat) \<Rightarrow> nat \<Rightarrow> int \<Rightarrow> int" where
  "draw rng pos k = int (rng pos mod nat k)"

text \<open>
  Reading a cell: \<open>None\<close> stands for \<^verbatim>\<open>undefined\<close>, the value of an index out of range.
  Writing a cell: the generator writes only cells it has just read.
\<close>

definition gridAt :: "char list list \<Rightarrow> int \<Rightarrow> int \<Rightarrow> char option" where
  "gridAt g x y =
     (if 0 \<le> y \<and> y < int (length g) \<and> 0 \<le> x \<and> x < int (length (g ! nat y))
      then Some (g ! nat y ! nat x) else None)"

definition setCell :: "char list list \<Rightarrow> int \<Rightarrow> int \<Rightarrow> char \<Rightarrow> char list list" where
  "setCell g x y c = g[nat y := (g ! nat y)[nat x := c]]"

definition borderedGrid :: "GenConfig \<Rightarrow> char list list" where
  "borderedGrid cfg =
     map (\<lambda>y. map (\<lambda>x. if x = 0 \<or> x = cfg_width cfg - 1 \<or> y = 0 \<or> y = cfg_height cfg - 1
                        then CHR ''#'' else CHR '' '')
                  [0..cfg_width cfg - 1])
         [0..cfg_height cfg - 1]"

text \<open>
  \<^verbatim>\<open>Math.floor(config.width * config.height * 0.1)\<close> is 5, 8 and 12 for the three tiers.
\<close>

definition numWalls :: "GenConfig \<Rightarrow> nat" where
  "numWalls cfg = nat (cfg_width cfg * cfg_height cfg div 10)"

fun scatterWalls ::
  "(nat \<Rightarrow> nat) \<Rightarrow> GenConfig \<Rightarrow> nat \<Rightarrow> char list list \<times> nat \<Rightarrow> char list list \<times> nat" where
  "scatterWalls rng cfg 0 s = s"
| "scatterWalls rng cfg (Suc n) (g, pos) =
     (let x = 2 + draw rng pos (cfg_width cfg - 4);
          y = 2 + draw rng (pos + 1) (cfg_height cfg - 4)
      in scatterWalls rng cfg n
           (if gridAt g x y = Some CHR '' '' then setCell g x y CHR ''#'' else g, pos + 2))"

definition freeSpaces :: "char list list \<Rightarrow> int \<Rightarrow> int \<Rightarrow> nat" where
  "freeSpaces g x y =
     length (filter id
       [gridAt g x (y - 1) = Some CHR '' '', gridAt g x (y + 1) = Some CHR '' '',
        gridAt g (x - 1) y = Some CHR '' '', gridAt g (x + 1) y = Some CHR '' ''])"

text \<open>
  The goal loop; the first argument counts the attempts that remain of the 100.
\<close>

fun placeGoals ::
  "(nat \<Rightarrow> nat) \<Rightarrow> GenConfig \<Rightarrow> nat \<Rightarrow> char list list \<times> Point list \<times> nat \<Rightarrow>
     char list list \<times> Point list \<times> nat" where
  "placeGoals rng cfg 0 s = s"
| "placeGoals rng cfg (Suc n) (g, gls, pos) =
     (if length gls < cfg_boxes cfg
      then (let x = 2 + draw rng pos (cfg_width cfg - 4);
                y = 2 + draw rng (pos + 1) (cfg_height cfg - 4)
            in if gridAt g x y = Some CHR '' '' \<and> \<not> list_ex (atCell x y) gls \<and>
                  freeSpaces g x y \<ge> 2
               then placeGoals rng cfg n
                      (setCell g x y CHR ''.'', gls @ [\<lparr>pt_x = x, pt_y = y\<rparr>], pos + 2)
               else placeGoals rng cfg n (g, gls, pos + 2))
      else (g, gls, pos))"

text \<open>
  The first placement of the player: each row is scanned for a cell that is neither a
  wall nor a box, and the outer loop stops after the first row that leaves
  \<^verbatim>\<open>player.x > 0\<close>.
\<close>

definition choosePlayerRow :: "GenConfig \<Rightarrow> char list list \<Rightarrow> Point list \<Rightarrow> int \<Rightarrow> Point \<Rightarrow> Point" where
  "choosePlayerRow cfg g bxs y p =
     (case find (\<lambda>x. gridAt g x y \<noteq> Some CHR ''#'' \<and> \<not> list_ex (atCell x y) bxs)
                [1..cfg_width cfg - 2] of
        Some x \<Rightarrow> \<lparr>pt_x = x, pt_y = y\<rparr>
      | None \<Rightarrow> p)"

fun choosePlayer :: "GenConfig \<Rightarrow> char list list \<Rightarrow> Point list \<Rightarrow> int list \<Rightarrow> Point \<Rightarrow> Point" where
  "choosePlayer cfg g bxs [] p = p"
| "choosePlayer cfg g bxs (y # ys) p =
     (let p' = choosePlayerRow cfg g bxs y p
      in if pt_x p' > 0 then p' else choosePlayer cfg g bxs ys p')"

definition dirs :: "Point list" where
  "dirs = [\<lparr>pt_x = 1, pt_y = 0\<rparr>, \<lparr>pt_x = -1, pt_y = 0\<rparr>,
           \<lparr>pt_x = 0, pt_y = 1\<rparr>, \<lparr>pt_x = 0, pt_y = -1\<rparr>]"

text \<open>\<^verbatim>\<open>boxes.some(b => b !== box && b.x === x && b.y === y)\<close> for the box at index \<open>i\<close>.\<close>

definition otherBoxAt :: "Point list \<Rightarrow> nat \<Rightarrow> int \<Rightarrow> int \<Rightarrow> bool" where
  "otherBoxAt bxs i x y = list_ex (\<lambda>j. j \<noteq> i \<and> atCell x y (bxs ! j)) [0..<length bxs]"

definition around :: "(int \<times> int) list" where
  "around = [(-1, -1), (0, -1), (1, -1), (-1, 0), (1, 0), (-1, 1), (0, 1), (1, 1)]"

text \<open>
  The number of walls among the eight neighbours: \<^verbatim>\<open>surroundingWalls\<close> of the pull loop
  and \<^verbatim>\<open>countWallNeighbors\<close> of the repair pass visit the same cells in the same order.
\<close>

definition countWallNeighbors :: "char list list \<Rightarrow> int \<Rightarrow> int \<Rightarrow> nat" where
  "countWallNeighbors g x y =
     length (filter (\<lambda>d. gridAt g (x + fst d) (y + snd d) = Some CHR ''#'') around)"

text \<open>One round of the reverse-pull loop, after \<^verbatim>\<open>totalAttempts++\<close>.\<close>

definition pullStep ::
  "(nat \<Rightarrow> nat) \<Rightarrow> GenConfig \<Rightarrow> char list list \<Rightarrow> Point list \<times> Point \<times> nat \<times> nat \<Rightarrow>
     Point list \<times> Point \<times> nat \<times> nat" where
  "pullStep rng cfg g s =
     (case s of (bxs, p, successfulMoves, pos) \<Rightarrow>
        (let i = rng pos mod length bxs;
             box = bxs ! i;
             dir = dirs ! (rng (pos + 1) mod length dirs);
             playerX = pt_x box + pt_x dir; playerY = pt_y box + pt_y dir;
             newBoxX = pt_x box - pt_x dir; newBoxY = pt_y box - pt_y dir;
             skip = (bxs, p, successfulMoves, pos + 2)
         in if newBoxX \<le> 0 \<or> newBoxX \<ge> cfg_width cfg - 1 \<or>
               newBoxY \<le> 0 \<or> newBoxY \<ge> cfg_height cfg - 1 then skip
            else if gridAt g newBoxX newBoxY = Some CHR ''#'' then skip
            else if otherBoxAt bxs i newBoxX newBoxY then skip
            else if playerX \<le> 0 \<or> playerX \<ge> cfg_width cfg - 1 \<or>
                    playerY \<le> 0 \<or> playerY \<ge> cfg_height cfg - 1 then skip
            else if gridAt g playerX playerY = Some CHR ''#'' then skip
            else if list_ex (atCell playerX playerY) bxs then skip
            else if countWallNeighbors g newBoxX newBoxY > 1 then skip
            else (bxs[i := \<lparr>pt_x = newBoxX, pt_y = newBoxY\<rparr>],
                  \<lparr>pt_x = playerX, pt_y = playerY\<rparr>, Suc successfulMoves, pos + 2)))"

text \<open>The pull loop; the first argument counts the attempts that remain.\<close>

fun pullLoop ::
  "(nat \<Rightarrow> nat) \<Rightarrow> GenConfig \<Rightarrow> char list list \<Rightarrow> nat \<Rightarrow> Point list \<times> Point \<times> nat \<times> nat \<Rightarrow>
     Point list \<times> Point \<times> nat \<times> nat" where
  "pullLoop rng cfg g 0 s = s"
| "pullLoop rng cfg g (Suc n) (bxs, p, successfulMoves, pos) =
     (if successfulMoves < cfg_moves cfg
      then pullLoop rng cfg g n (pullStep rng cfg g (bxs, p, successfulMoves, pos))
      else (bxs, p, successfulMoves, pos))"

text \<open>The test a cell must pass to receive the box at index \<open>i\<close> in the repair pass.\<close>

definition validTarget ::
  "char list list \<Rightarrow> Point list \<Rightarrow> Point list \<Rightarrow> Point \<Rightarrow> nat \<Rightarrow> int \<Rightarrow> int \<Rightarrow> bool" where
  "validTarget g gls bxs p i x y =
     (gridAt g x y \<noteq> Some CHR ''#'' \<and> \<not> list_ex (atCell x y) gls \<and>
      \<not> otherBoxAt bxs i x y \<and> countWallNeighbors g x y \<le> 1 \<and>
      \<not> (pt_x p = x \<and> pt_y p = y))"

text \<open>The bounded random search; the argument counts the tries that remain of the 50.\<close>

fun tryRandom ::
  "(nat \<Rightarrow> nat) \<Rightarrow> GenConfig \<Rightarrow> (int \<Rightarrow> int \<Rightarrow> bool) \<Rightarrow> nat \<Rightarrow> nat \<Rightarrow> Point option \<times> nat" where
  "tryRandom rng cfg ok 0 pos = (None, pos)"
| "tryRandom rng cfg ok (Suc n) pos =
     (let rx = 1 + draw rng pos (cfg_width cfg - 2);
          ry = 1 + draw rng (pos + 1) (cfg_height cfg - 2)
      in if ok rx ry then (Some \<lparr>pt_x = rx, pt_y = ry\<rparr>, pos + 2)
         else tryRandom rng cfg ok n (pos + 2))"

text \<open>The interior cells in row-major order, as the exhaustive scans visit them.\<close>

definition scanCells :: "GenConfig \<Rightarrow> (int \<times> int) list" where
  "scanCells cfg =
     concat (map (\<lambda>y. map (\<lambda>x. (x, y)) [1..cfg_width cfg - 2]) [1..cfg_height cfg - 2])"

definition repairBox ::
  "(nat \<Rightarrow> nat) \<Rightarrow> GenConfig \<Rightarrow> char list list \<Rightarrow> Point list \<Rightarrow> Point \<Rightarrow> nat \<Rightarrow>
     Point list \<times> bool \<times> nat \<Rightarrow> Point list \<times> bool \<times> nat" where
  "repairBox rng cfg g gls p i s =
     (case s of (bxs, allBoxesValid, pos) \<Rightarrow>
        (let box = bxs ! i
         in if list_ex (atCell (pt_x box) (pt_y box)) gls \<or>
               countWallNeighbors g (pt_x box) (pt_y box) > 1
            then (case tryRandom rng cfg (validTarget g gls bxs p i) 50 pos of
                    (Some q, pos') \<Rightarrow> (bxs[i := q], False, pos')
                  | (None, pos') \<Rightarrow>
                      (case find (\<lambda>c. validTarget g gls bxs p i (fst c) (snd c)) (scanCells cfg) of
                         Some c \<Rightarrow> (bxs[i := \<lparr>pt_x = fst c, pt_y = snd c\<rparr>], False, pos')
                       | None \<Rightarrow> (bxs, False, pos')))
            else (bxs, allBoxesValid, pos)))"

text \<open>
  One round of the repair loop visits the boxes in order; the loop runs while the last
  round found an invalid box, at most 500 times.
\<close>

definition repairRound ::
  "(nat \<Rightarrow> nat) \<Rightarrow> GenConfig \<Rightarrow> char list list \<Rightarrow> Point list \<Rightarrow> Point \<Rightarrow>
     Point list \<times> nat \<Rightarrow> Point list \<times> bool \<times> nat" where
  "repairRound rng cfg g gls p s =
     fold (repairBox rng cfg g gls p) [0..<length (fst s)] (fst s, True, snd s)"

fun repairLoop ::
  "(nat \<Rightarrow> nat) \<Rightarrow> GenConfig \<Rightarrow> char list list \<Rightarrow> Point list \<Rightarrow> Point \<Rightarrow> nat \<Rightarrow>
     Point list \<times> bool \<times> nat \<Rightarrow> Point list \<times> bool \<times> nat" where
  "repairLoop rng cfg g gls p 0 s = s"
| "repairLoop rng cfg g gls p (Suc n) (bxs, allBoxesValid, pos) =
     (if \<not> allBoxesValid
      then repairLoop rng cfg g gls p n (repairRound rng cfg g gls p (bxs, pos))
      else (bxs, allBoxesValid, pos))"

definition relocatePlayer ::
  "GenConfig \<Rightarrow> char list list \<Rightarrow> Point list \<Rightarrow> Point list \<Rightarrow> Point \<Rightarrow> Point" where
  "relocatePlayer cfg g gls bxs p =
     (if list_ex (atCell (pt_x p) (pt_y p)) gls
      then (case find (\<lambda>c. gridAt g (fst c) (snd c) \<noteq> Some CHR ''#'' \<and>
                            \<not> list_ex (atCell (fst c) (snd c)) gls \<and>
                            \<not> list_ex (atCell (fst c) (snd c)) bxs) (scanCells cfg) of
              Some c \<Rightarrow> \<lparr>pt_x = fst c, pt_y = snd c\<rparr>
            | None \<Rightarrow> p)
      else p)"

text \<open>The grid and the goals of one attempt, up to the test that may restart it.\<close>

definition placeWallsAndGoals ::
  "(nat \<Rightarrow> nat) \<Rightarrow> GenConfig \<Rightarrow> nat \<Rightarrow> char list list \<times> Point list \<times> nat" where
  "placeWallsAndGoals rng cfg pos =
     (case scatterWalls rng cfg (numWalls cfg) (borderedGrid cfg, pos) of
        (g, pos1) \<Rightarrow> placeGoals rng cfg 100 (g, [], pos1))"

text \<open>
  The rest of the generation once the goals are placed. The result is the level and, for
  the statement of the properties, the last value of \<^verbatim>\<open>allBoxesValid\<close>.
\<close>

definition finishLevel ::
  "(nat \<Rightarrow> nat) \<Rightarrow> GenConfig \<Rightarrow> char list list \<Rightarrow> Point list \<Rightarrow> nat \<Rightarrow> ParsedLevel \<times> bool" where
  "finishLevel rng cfg g gls pos =
     (let p0 = choosePlayer cfg g gls [1..cfg_height cfg - 2] \<lparr>pt_x = 2, pt_y = 2\<rparr>
      in case pullLoop rng cfg g (cfg_moves cfg * 5) (gls, p0, 0, pos) of
           (bxs1, p1, successfulMoves, pos1) \<Rightarrow>
             (case repairLoop rng cfg g gls p1 500 (bxs1, False, pos1) of
                (bxs2, allBoxesValid, pos2) \<Rightarrow>
                  (\<lparr>parsedGrid = g, initialPlayer = relocatePlayer cfg g gls bxs2 p1,
                    initialBoxes = bxs2, lvl_goals = gls\<rparr>, allBoxesValid)))"

text \<open>
  \<^verbatim>\<open>generateRandomLevel\<close> calls itself when too few goals could be placed, and nothing
  bounds the number of restarts: \<open>None\<close> stands for a run that never returns a level.
\<close>

partial_function (option) generateTraced ::
  "(nat \<Rightarrow> nat) \<Rightarrow> Difficulty \<Rightarrow> nat \<Rightarrow> (ParsedLevel \<times> bool) option" where
  "generateTraced rng difficulty pos =
     (case placeWallsAndGoals rng (configs difficulty) pos of
        (g, gls, pos') \<Rightarrow>
          if length gls < cfg_boxes (configs difficulty)
          then generateTraced rng difficulty pos'
          else Some (finishLevel rng (configs difficulty) g gls pos'))"

declare generateTraced.simps [code]

definition generateRandomLevel :: "(nat \<Rightarrow> nat) \<Rightarrow> Difficulty \<Rightarrow> nat \<Rightarrow> ParsedLevel option" where
  "generateRandomLevel rng difficulty pos = map_option fst (generateTraced rng difficulty pos)"

text \<open>Sequences of draws for the concrete checks: the listed numbers, then zeros.\<close>

definition drawsFrom :: "nat list \<Rightarrow> nat \<Rightarrow> nat" where
  "drawsFrom l i = (if i < length l then l ! i else 0)"

definition wallRowDraws :: "nat \<Rightarrow> nat" where
  "wallRowDraws = drawsFrom [0, 1, 1, 1, 2, 1, 3, 1, 0, 1, 0, 0]"

definition easyDraws :: "nat \<Rightarrow> nat" where
  "easyDraws = drawsFrom [0, 0, 0, 0, 0, 0, 0, 0, 0, 0, 1, 1]"

definition mediumDraws :: "nat \<Rightarrow> nat" where
  "mediumDraws = drawsFrom [0, 0, 1, 0, 3, 0, 5, 0, 1, 2, 4, 2, 1, 3, 4, 3, 0, 1, 2, 1]"

text \<open>
  For the proofs: a configuration is well sized when its draws have a range; a cell is
  inner when it is at least two cells away from every edge; a grid is well formed when
  it has the configured size, its outer ring is wall and the ring next to it is blank,
  as \<^verbatim>\<open>borderedGrid\<close> builds them.
\<close>

definition wellSized :: "GenConfig \<Rightarrow> bool" where
  "wellSized cfg = (5 \<le> cfg_width cfg \<and> 5 \<le> cfg_height cfg \<and> 0 < cfg_boxes cfg)"

definition inner :: "GenConfig \<Rightarrow> int \<Rightarrow> int \<Rightarrow> bool" where
  "inner cfg x y = (2 \<le> x \<and> x \<le> cfg_width cfg - 3 \<and> 2 \<le> y \<and> y \<le> cfg_height cfg - 3)"

definition onRing :: "GenConfig \<Rightarrow> int \<Rightarrow> int \<Rightarrow> bool" where
  "onRing cfg x y =
     (0 \<le> x \<and> x < cfg_width cfg \<and> 0 \<le> y \<and> y < cfg_height cfg \<and>
      (x = 0 \<or> x = cfg_width cfg - 1 \<or> y = 0 \<or> y = cfg_height cfg - 1))"

definition gridOK :: "GenConfig \<Rightarrow> char list list \<Rightarrow> bool" where
  "gridOK cfg g =
     (int (length g) = cfg_height cfg \<and>
      (\<forall>row \<in> set g. int (length row) = cfg_width cfg) \<and>
      (\<forall>x y. 0 \<le> x \<and> x < cfg_width cfg \<and> 0 \<le> y \<and> y < cfg_height cfg \<and> \<not> inner cfg x y \<longrightarrow>
         gridAt g x y = Some (if onRing cfg x y then CHR ''#'' else CHR '' '')))"

definition offCorner :: "Point list \<Rightarrow> bool" where
  "offCorner bxs = (\<lparr>pt_x = 1, pt_y = 1\<rparr> \<notin> set bxs)"

definition onGoal :: "Point list \<Rightarrow> Point \<Rightarrow> bool" where
  "onGoal gls b = (b \<in> set gls)"

definition goalsInner :: "GenConfig \<Rightarrow> Point list \<Rightarrow> bool" where
  "goalsInner cfg gls = (\<forall>p \<in> set gls. inner cfg (pt_x p) (pt_y p))"

text \<open>The grids that the three sequences of draws lead to.\<close>

definition wallRowGrid :: "char list list" where
  "wallRowGrid =
     [''########'', ''#      #'', ''# .    #'', ''# #### #'', ''#      #'', ''#      #'',
      ''########'']"

definition easyGrid :: "char list list" where
  "easyGrid =
     [''########'', ''#      #'', ''# #    #'', ''#  .   #'', ''#      #'', ''#      #'',
      ''########'']"

definition mediumGrid :: "char list list" where
  "mediumGrid =
     [''##########'', ''#        #'', ''# ## # # #'', ''# . .    #'', ''#  #  #  #'',
      ''#  #  #  #'', ''#        #'', ''##########'']"

section \<open>The timing estimator\<close>

text \<open>
  \<^verbatim>\<open>estimateMsForSteps\<close> of \<^verbatim>\<open>SokobanGame.tsx\<close> computes in JavaScript numbers and calls
  \<^verbatim>\<open>Math.log\<close>, \<^verbatim>\<open>Math.pow\<close> and \<^verbatim>\<open>Math.round\<close>. The three library functions are
  parameters of the model; the lookups, the sort and the choice of the two samples use
  none of them. The numbers are reals: the divisions and products of the source are
  double operations, here they are exact.
\<close>

record MathFns =
  math_log :: "real \<Rightarrow> real"
  math_pow :: "real \<Rightarrow> real \<Rightarrow> real"
  math_round :: "real \<Rightarrow> real"

text \<open>
  The exact functions: the natural logarithm, the real power (\<^verbatim>\<open>Math.pow\<close> is applied
  to positive bases only in what follows) and rounding to the nearest integer, halves
  up.
\<close>

definition exactMath :: MathFns where
  "exactMath = \<lparr>math_log = ln, math_pow = (\<lambda>x y. x powr y), math_round = js_round\<rparr>"

definition DEFAULT_ESTIMATE_MS_BY_STEPS :: "(int \<times> real) list" where
  "DEFAULT_ESTIMATE_MS_BY_STEPS = [(25, 800), (35, 3500), (45, 12000), (50, 20000), (60, 40000)]"

text \<open>
  The loop that chooses \<^verbatim>\<open>lower\<close> and \<^verbatim>\<open>upper\<close>, over the indices that remain; when it
  ends without a \<^verbatim>\<open>break\<close> the two keep their initial values, the first and the last
  entry.
\<close>

fun pickPair ::
  "(int \<times> real) list \<Rightarrow> int \<Rightarrow> nat list \<Rightarrow> (int \<times> real) \<times> (int \<times> real)" where
  "pickPair entries targetSteps [] = (entries ! 0, entries ! (length entries - 1))"
| "pickPair entries targetSteps (i # rest) =
     (if fst (entries ! i) \<le> targetSteps \<and> targetSteps \<le> fst (entries ! (i + 1))
      then (entries ! i, entries ! (i + 1))
      else if targetSteps < fst (entries ! 0)
      then (entries ! 0, entries ! 1)
      else if targetSteps > fst (entries ! (length entries - 1))
      then (entries ! (length entries - 2), entries ! (length entries - 1))
      else pickPair entries targetSteps rest)"

text \<open>
  The table \<^verbatim>\<open>solverTimingsBySteps\<close> is given by its entries, as \<^verbatim>\<open>Object.entries\<close> lists
  them with the keys read as numbers; a horizon is looked up among them. Every entry of
  the model is finite, so the filter on \<^verbatim>\<open>Number.isFinite\<close> keeps them all; the sort is
  stable.
\<close>

definition estimateMsForSteps :: "MathFns \<Rightarrow> (int \<times> real) list \<Rightarrow> int \<Rightarrow> real" where
  "estimateMsForSteps M timings targetSteps =
     (case map_of timings targetSteps of
        Some direct \<Rightarrow> direct
      | None \<Rightarrow>
          (let entries = sort_key fst timings
           in if length entries = 0
              then (case map_of DEFAULT_ESTIMATE_MS_BY_STEPS targetSteps of
                      Some fallback \<Rightarrow> fallback
                    | None \<Rightarrow>
                        (let baseSteps = 35;
                             baseMs = (case map_of DEFAULT_ESTIMATE_MS_BY_STEPS baseSteps of
                                         Some b \<Rightarrow> b | None \<Rightarrow> 3500);
                             ratio = of_int targetSteps / of_int baseSteps
                         in math_round M (baseMs * math_pow M ratio 4)))
              else if length entries = 1
              then (let base = entries ! 0;
                        ratio = of_int targetSteps / of_int (fst base)
                    in math_round M (snd base * math_pow M ratio 4))
              else (case pickPair entries targetSteps [0..<length entries - 1] of
                      (lower, upper) \<Rightarrow>
                        (let p = math_log M (snd upper / snd lower) /
                                 math_log M (of_int (fst upper) / of_int (fst lower));
                             c = snd lower / math_pow M (of_int (fst lower)) p
                         in math_round M (c * math_pow M (of_int targetSteps) p)))))"

text \<open>The table of the two samples \<^verbatim>\<open>{25: 1000, 50: 16000}\<close>.\<close>

definition twoSamples :: "(int \<times> real) list" where
  "twoSamples = [(25, 1000), (50, 16000)]"

section \<open>Facts about move execution and undo\<close>

lemma Point_eq_iff: "(p::Point) = q \<longleftrightarrow> pt_x p = pt_x q \<and> pt_y p = pt_y q"
  by (cases p, cases q) simp

lemma isWall_impassable: "isWall g x y = impassable g \<lparr>pt_x = x, pt_y = y\<rparr>"
  by (auto simp: isWall_def impassable_def inBounds_def cellAt_def Let_def)

lemma atCell_mem: "list_ex (atCell x y) (bs::Point list) \<longleftrightarrow> \<lparr>pt_x = x, pt_y = y\<rparr> \<in> set bs"
  by (induction bs) (auto simp: atCell_def Point_eq_iff)

lemma findIndex_None: "findIndex P xs = None \<longleftrightarrow> \<not> list_ex P xs"
  by (induction xs) auto

lemma findIndex_Some: "findIndex P xs = Some i \<Longrightarrow> i < length xs \<and> P (xs ! i) \<and> (\<forall>j<i. \<not> P (xs ! j))"
proof (induction xs arbitrary: i)
  case Nil then show ?case by simp
next
  case (Cons a as)
  show ?case
  proof (cases "P a")
    case True with Cons.prems show ?thesis by simp
  next
    case False
    with Cons.prems obtain k where k: "findIndex P as = Some k" "i = Suc k" by auto
    from Cons.IH[OF k(1)] False k(2) show ?thesis
      by (auto simp: nth_Cons split: nat.splits)
  qed
qed

lemma impassable_beyond_rows:
  "pt_y p < 0 \<or> int (length g) \<le> pt_y p \<Longrightarrow> impassable g p"
  by (auto simp: impassable_def inBounds_def)

lemma move_blocked:
  assumes "impassable (grid st) (step dir (player st)) \<or>
           (step dir (player st) \<in> set (boxes st) \<and>
            (impassable (grid st) (step dir (step dir (player st))) \<or>
             step dir (step dir (player st)) \<in> set (boxes st)))"
  shows "move dir skip st = (False, st)"
  using assms
  by (auto simp add: move_def Let_def step_def isWall_impassable atCell_mem findIndex_None
      split: option.splits)

lemma roomStart_fields:
  "grid roomStart = [''######'', ''#  . #'', ''######'']"
  "player roomStart = \<lparr>pt_x = 1, pt_y = 1\<rparr>"
  "boxes roomStart = [\<lparr>pt_x = 2, pt_y = 1\<rparr>]"
  "goals roomStart = [\<lparr>pt_x = 3, pt_y = 1\<rparr>]"
  "moveCount roomStart = 0" "moveHistory roomStart = []"
  "showVictoryModal roomStart = False" "isLoading roomStart = False"
  "pendingTimeouts roomStart = []" "solution roomStart = None"
  by (simp_all add: roomStart_def initializeLevel_def roomLevel_def initialComponent_def
      checkSolvability_start_def stopAutoSolve_def abortCurrent_def Let_def)

lemma Point_eta: "\<lparr>pt_x = pt_x p, pt_y = pt_y p\<rparr> = (p::Point)"
  by (cases p) simp

lemma findIndex_mem:
  assumes "p \<in> set (bs::Point list)"
  obtains i where "findIndex (atCell (pt_x p) (pt_y p)) bs = Some i" "i < length bs" "bs ! i = p"
proof -
  from assms have "list_ex (atCell (pt_x p) (pt_y p)) bs" by (simp add: atCell_mem Point_eta)
  then obtain i where i: "findIndex (atCell (pt_x p) (pt_y p)) bs = Some i"
    using findIndex_None[of "atCell (pt_x p) (pt_y p)" bs] by (cases "findIndex (atCell (pt_x p) (pt_y p)) bs") auto
  from findIndex_Some[OF i] have "i < length bs" "bs ! i = p" by (auto simp: atCell_def Point_eq_iff)
  with i that show ?thesis by blast
qed

lemma findIndex_first:
  assumes "findIndex (atCell (pt_x p) (pt_y p)) bs = Some i" and "j < i"
  shows "bs ! j \<noteq> (p::Point)"
  using findIndex_Some[OF assms(1)] assms(2) by (auto simp: atCell_def)

lemma saveState_fields:
  "moveHistory (saveState st) = moveHistory st @ [snapshotOf st]"
  by (simp add: saveState_def snapshotOf_def)

lemma move_push:
  assumes "\<not> showVictoryModal st" "\<not> isLoading st"
    and "\<not> impassable (grid st) (step dir (player st))"
    and "findIndex (atCell (pt_x (step dir (player st))) (pt_y (step dir (player st)))) (boxes st) = Some i"
    and "\<not> impassable (grid st) (step dir (step dir (player st)))"
    and "step dir (step dir (player st)) \<notin> set (boxes st)"
    and "move dir skip st = (ok, st')"
  shows "ok" "boxes st' = (boxes st)[i := step dir (step dir (player st))]"
    "player st' = step dir (player st)"
    "moveCount st' = Suc (moveCount st)"
    "moveHistory st' = moveHistory st @ [snapshotOf st]"
    "grid st' = grid st" "goals st' = goals st"
    "pendingTimeouts st' = pendingTimeouts st @ (if isWin (boxes st') (goals st') then [ShowVictoryTimeout] else [])"
  using assms
  by (auto simp add: move_def Let_def step_def isWall_impassable atCell_mem
      saveState_def snapshotOf_def scheduleSolvabilityCheck_def abortCurrent_def updateSolutionProgress_def
      impassable_beyond_rows
      split: option.splits if_splits)

lemma move_walk:
  assumes "\<not> showVictoryModal st" "\<not> isLoading st"
    and "\<not> impassable (grid st) (step dir (player st))"
    and "step dir (player st) \<notin> set (boxes st)"
    and "move dir skip st = (ok, st')"
  shows "ok" "boxes st' = boxes st"
    "player st' = step dir (player st)"
    "moveCount st' = Suc (moveCount st)"
    "moveHistory st' = moveHistory st @ [snapshotOf st]"
    "grid st' = grid st" "goals st' = goals st"
    "pendingTimeouts st' = pendingTimeouts st"
proof -
  have fi: "findIndex (atCell (pt_x (player st) + pt_x (delta dir)) (pt_y (player st) + pt_y (delta dir))) (boxes st) = None"
    using assms(4) by (simp add: findIndex_None atCell_mem step_def)
  have w: "\<not> isWall (grid st) (pt_x (player st) + pt_x (delta dir)) (pt_y (player st) + pt_y (delta dir))"
    using assms(3) by (simp add: isWall_impassable step_def)
  from assms(1,2,5) fi w
  show "ok" "boxes st' = boxes st"
    "player st' = step dir (player st)"
    "moveCount st' = Suc (moveCount st)"
    "moveHistory st' = moveHistory st @ [snapshotOf st]"
    "grid st' = grid st" "goals st' = goals st"
    "pendingTimeouts st' = pendingTimeouts st"
    by (auto simp add: move_def Let_def step_def
        saveState_def snapshotOf_def scheduleSolvabilityCheck_def abortCurrent_def updateSolutionProgress_def
        split: option.splits if_splits)
qed

lemma move_guard: "showVictoryModal st \<or> isLoading st \<Longrightarrow> move dir skip st = (False, st)"
  by (auto simp: move_def)

text \<open>The four ways a move can go.\<close>

lemma move_cases:
  assumes "move dir skip st = (ok, st')"
  obtains
    (rejected) "\<not> ok" "st' = st"
  | (walk) "ok" "\<not> showVictoryModal st" "\<not> isLoading st"
      "\<not> impassable (grid st) (step dir (player st))"
      "step dir (player st) \<notin> set (boxes st)"
  | (push) i where "ok" "\<not> showVictoryModal st" "\<not> isLoading st"
      "\<not> impassable (grid st) (step dir (player st))"
      "step dir (player st) \<in> set (boxes st)"
      "findIndex (atCell (pt_x (step dir (player st))) (pt_y (step dir (player st)))) (boxes st) = Some i"
      "\<not> impassable (grid st) (step dir (step dir (player st)))"
      "step dir (step dir (player st)) \<notin> set (boxes st)"
proof (cases "showVictoryModal st \<or> isLoading st")
  case True
  with assms move_guard[OF True, of dir skip] rejected show ?thesis by simp
next
  case g: False
  show ?thesis
  proof (cases "impassable (grid st) (step dir (player st)) \<or>
           (step dir (player st) \<in> set (boxes st) \<and>
            (impassable (grid st) (step dir (step dir (player st))) \<or>
             step dir (step dir (player st)) \<in> set (boxes st)))")
    case True
    from move_blocked[OF True, of skip] assms rejected show ?thesis by simp
  next
    case nb: False
    show ?thesis
    proof (cases "step dir (player st) \<in> set (boxes st)")
      case False
      with g nb assms move_walk(1)[of st dir skip ok st'] walk show ?thesis by auto
    next
      case True
      then obtain i where i: "findIndex (atCell (pt_x (step dir (player st))) (pt_y (step dir (player st)))) (boxes st) = Some i"
        by (rule findIndex_mem)
      with g nb True assms move_push(1)[of st dir i skip ok st'] push[of i] show ?thesis by auto
    qed
  qed
qed

lemma move_history:
  assumes "move dir skip st = (True, st')"
  shows "moveHistory st' = moveHistory st @ [snapshotOf st] \<and> grid st' = grid st \<and> goals st' = goals st"
  using assms
proof (cases rule: move_cases)
  case rejected
  then show ?thesis by simp
next
  case walk
  from move_walk[OF walk(2-5) assms] show ?thesis by simp
next
  case (push i)
  from move_push[OF push(2,3,4,6,7,8) assms] show ?thesis by simp
qed

lemma undoMove_nonempty:
  assumes "moveHistory st = h @ [s]"
  shows "player (snd (undoMove st)) = snap_player s"
    "boxes (snd (undoMove st)) = snap_boxes s"
    "moveCount (snd (undoMove st)) = snap_moveCount s"
    "moveHistory (snd (undoMove st)) = h"
  using assms
  by (simp_all add: undoMove_def Let_def stopAutoSolve_def checkSolvability_start_def abortCurrent_def
      split: option.splits prod.splits)

lemma undoMove_grid_goals:
  "grid (snd (undoMove st)) = grid st" "goals (snd (undoMove st)) = goals st"
  by (simp_all add: undoMove_def Let_def stopAutoSolve_def checkSolvability_start_def abortCurrent_def
      split: option.splits prod.splits)

lemma undoMove_empty:
  assumes "moveHistory st = []"
  shows "puzzle (snd (undoMove st)) = puzzle st" "fst (undoMove st) = None"
  using assms
  by (simp_all add: undoMove_def Let_def stopAutoSolve_def puzzle_def)

lemma undos_Suc: "undos (Suc n) st = snd (undoMove (undos n st))"
  by (simp add: undos_def)

lemma undos_grid_goals: "grid (undos n st) = grid st \<and> goals (undos n st) = goals st"
  by (induction n) (simp_all add: undos_Suc undoMove_grid_goals, simp add: undos_def)

lemma undos_after_moves:
  "movesOk ms st = Some st' \<Longrightarrow> puzzle (undos (length ms) st') = puzzle st"
proof (induction ms arbitrary: st)
  case Nil
  then show ?case by (simp add: undos_def)
next
  case (Cons m ms)
  obtain d skip where m: "m = (d, skip)" by (cases m)
  from Cons.prems m obtain st1 where s1: "move d skip st = (True, st1)" and r: "movesOk ms st1 = Some st'"
    by (auto split: prod.splits bool.splits)
  from Cons.IH[OF r] have ih: "puzzle (undos (length ms) st') = puzzle st1" .
  from move_history[OF s1] ih
  have h: "moveHistory (undos (length ms) st') = moveHistory st @ [snapshotOf st]"
    by (simp add: puzzle_def)
  from undoMove_nonempty[OF h] show ?case
    by (simp add: undos_Suc puzzle_def snapshotOf_def)
qed

lemma solvedStart_fields:
  "grid solvedStart = [''#####'', ''#  .#'', ''#####'']"
  "player solvedStart = \<lparr>pt_x = 1, pt_y = 1\<rparr>"
  "boxes solvedStart = [\<lparr>pt_x = 3, pt_y = 1\<rparr>]"
  "goals solvedStart = [\<lparr>pt_x = 3, pt_y = 1\<rparr>]"
  "moveCount solvedStart = 0" "moveHistory solvedStart = []"
  "showVictoryModal solvedStart = False" "isLoading solvedStart = False"
  "pendingTimeouts solvedStart = []" "solution solvedStart = None"
  by (simp_all add: solvedStart_def initializeLevel_def solvedLevel_def initialComponent_def
      checkSolvability_start_def stopAutoSolve_def abortCurrent_def Let_def)

lemma roomStart_push:
  "\<not> showVictoryModal roomStart" "\<not> isLoading roomStart"
  "\<not> impassable (grid roomStart) (step Right (player roomStart))"
  "step Right (player roomStart) \<in> set (boxes roomStart)"
  "\<not> impassable (grid roomStart) (step Right (step Right (player roomStart)))"
  "step Right (step Right (player roomStart)) \<notin> set (boxes roomStart)"
  by (simp_all add: roomStart_fields impassable_def inBounds_def cellAt_def step_def)

lemma roomPushed_fields:
  "fst (move Right False roomStart)"
  "grid (snd (move Right False roomStart)) = [''######'', ''#  . #'', ''######'']"
  "player (snd (move Right False roomStart)) = \<lparr>pt_x = 2, pt_y = 1\<rparr>"
  "boxes (snd (move Right False roomStart)) = [\<lparr>pt_x = 3, pt_y = 1\<rparr>]"
  "goals (snd (move Right False roomStart)) = [\<lparr>pt_x = 3, pt_y = 1\<rparr>]"
  "pendingTimeouts (snd (move Right False roomStart)) = [ShowVictoryTimeout]"
  "showVictoryModal (snd (move Right False roomStart)) = False"
  "isLoading (snd (move Right False roomStart)) = False"
  "moveHistory (snd (move Right False roomStart)) = [snapshotOf roomStart]"
proof -
  obtain ok st' where m: "move Right False roomStart = (ok, st')" by (cases "move Right False roomStart")
  have fi: "findIndex (atCell (pt_x (step Right (player roomStart))) (pt_y (step Right (player roomStart)))) (boxes roomStart) = Some 0"
    by (simp add: roomStart_fields step_def atCell_def)
  note p = move_push[OF roomStart_push(1,2,3) fi roomStart_push(5,6) m]
  have g: "showVictoryModal st' = False" "isLoading st' = False"
    using m p(1) roomStart_push(1,2) fi
    by (auto simp add: move_def Let_def roomStart_fields isWall_def atCell_def saveState_def isWin_def
       updateSolutionProgress_def split: if_splits)
  from p(2) have b: "boxes st' = [\<lparr>pt_x = 3, pt_y = 1\<rparr>]" by (simp add: roomStart_fields step_def)
  from p b g m
  show "fst (move Right False roomStart)"
  "grid (snd (move Right False roomStart)) = [''######'', ''#  . #'', ''######'']"
  "player (snd (move Right False roomStart)) = \<lparr>pt_x = 2, pt_y = 1\<rparr>"
  "boxes (snd (move Right False roomStart)) = [\<lparr>pt_x = 3, pt_y = 1\<rparr>]"
  "goals (snd (move Right False roomStart)) = [\<lparr>pt_x = 3, pt_y = 1\<rparr>]"
  "pendingTimeouts (snd (move Right False roomStart)) = [ShowVictoryTimeout]"
  "showVictoryModal (snd (move Right False roomStart)) = False"
  "isLoading (snd (move Right False roomStart)) = False"
  "moveHistory (snd (move Right False roomStart)) = [snapshotOf roomStart]"
    by (simp_all add: roomStart_fields step_def isWin_def atCell_def)
qed

lemma roomWon_fields:
  "showVictoryModal roomWon"
  "grid roomWon = [''######'', ''#  . #'', ''######'']"
  "player roomWon = \<lparr>pt_x = 2, pt_y = 1\<rparr>"
  "boxes roomWon = [\<lparr>pt_x = 3, pt_y = 1\<rparr>]"
  by (simp_all add: roomWon_def timeoutFires_def roomPushed_fields Let_def)

section \<open>Claims about move execution and undo\<close>

text \<open>
  Claim C1. For every state and direction: when the player's target cell is a wall, void
  or out of bounds, or it holds a box whose own destination one step further is a wall,
  void, out of bounds or holds a box, \<^verbatim>\<open>move\<close> returns false and returns the state it was
  given; in particular the player, the boxes, the move counter and the history are
  unchanged.
\<close>

theorem move_blocked_rejected:
  assumes "impassable (grid st) (step dir (player st)) \<or>
           (step dir (player st) \<in> set (boxes st) \<and>
            (impassable (grid st) (step dir (step dir (player st))) \<or>
             step dir (step dir (player st)) \<in> set (boxes st)))"
  shows "fst (move dir skip st) = False \<and> snd (move dir skip st) = st \<and>
         player (snd (move dir skip st)) = player st \<and>
         boxes (snd (move dir skip st)) = boxes st \<and>
         moveCount (snd (move dir skip st)) = moveCount st \<and>
         moveHistory (snd (move dir skip st)) = moveHistory st"
  using move_blocked[OF assms, of skip] by simp

theorem move_blocked_rejected_witness:
  "impassable (grid roomStart) (step Left (player roomStart)) \<and>
   fst (move Left False roomStart) = False \<and> snd (move Left False roomStart) = roomStart"
proof -
  have h: "impassable (grid roomStart) (step Left (player roomStart))"
    by (simp add: roomStart_fields impassable_def inBounds_def cellAt_def step_def)
  from move_blocked_rejected[of roomStart Left False] h show ?thesis by simp
qed

text \<open>
  Claim C2, as amended. While the victory modal is not shown and no load is in progress:
  when the player's target cell is passable and holds a box, and the cell one step
  further is passable and holds no box, \<^verbatim>\<open>move\<close> returns true; the first box on the target
  cell (the box of least index among those on it) moves one step in the direction and
  every other box keeps its index and position; the player stands on the box's old cell;
  the snapshot of the state before the move is appended to the history; and the move
  counter grows by exactly one.
\<close>

theorem push_moves_one_box:
  assumes "\<not> showVictoryModal st" and "\<not> isLoading st"
    and "\<not> impassable (grid st) (step dir (player st))"
    and "step dir (player st) \<in> set (boxes st)"
    and "\<not> impassable (grid st) (step dir (step dir (player st)))"
    and "step dir (step dir (player st)) \<notin> set (boxes st)"
  shows "\<exists>i st'. move dir skip st = (True, st') \<and>
           i < length (boxes st) \<and> boxes st ! i = step dir (player st) \<and>
           (\<forall>j < i. boxes st ! j \<noteq> step dir (player st)) \<and>
           length (boxes st') = length (boxes st) \<and>
           boxes st' ! i = step dir (step dir (player st)) \<and>
           (\<forall>j < length (boxes st). j \<noteq> i \<longrightarrow> boxes st' ! j = boxes st ! j) \<and>
           player st' = step dir (player st) \<and>
           moveHistory st' = moveHistory st @ [snapshotOf st] \<and>
           moveCount st' = moveCount st + 1"
proof -
  from assms(4) obtain i where i: "findIndex (atCell (pt_x (step dir (player st))) (pt_y (step dir (player st)))) (boxes st) = Some i"
    "i < length (boxes st)" "boxes st ! i = step dir (player st)"
    by (rule findIndex_mem)
  obtain ok st' where m: "move dir skip st = (ok, st')" by (cases "move dir skip st")
  note p = move_push[OF assms(1,2,3) i(1) assms(5,6) m]
  from p(1) m have "move dir skip st = (True, st')" by simp
  moreover from p(2) i(2) have "length (boxes st') = length (boxes st)"
    "boxes st' ! i = step dir (step dir (player st))"
    "\<forall>j < length (boxes st). j \<noteq> i \<longrightarrow> boxes st' ! j = boxes st ! j"
    by simp_all
  moreover from findIndex_first[OF i(1)]
  have "\<forall>j < i. boxes st ! j \<noteq> step dir (player st)" by blast
  ultimately show ?thesis using i(2,3) p(3,4,5) by auto
qed

theorem push_moves_one_box_witness:
  "\<not> showVictoryModal roomStart \<and> \<not> isLoading roomStart \<and>
   \<not> impassable (grid roomStart) (step Right (player roomStart)) \<and>
   step Right (player roomStart) \<in> set (boxes roomStart) \<and>
   \<not> impassable (grid roomStart) (step Right (step Right (player roomStart))) \<and>
   step Right (step Right (player roomStart)) \<notin> set (boxes roomStart) \<and>
   fst (move Right False roomStart) \<and>
   boxes (snd (move Right False roomStart)) = [\<lparr>pt_x = 3, pt_y = 1\<rparr>] \<and>
   player (snd (move Right False roomStart)) = \<lparr>pt_x = 2, pt_y = 1\<rparr> \<and>
   moveCount (snd (move Right False roomStart)) = 1"
proof -
  from push_moves_one_box[OF roomStart_push, of False]
  obtain i st' where m: "move Right False roomStart = (True, st')"
    and r: "i < length (boxes roomStart)" "boxes st' ! i = step Right (step Right (player roomStart))"
      "length (boxes st') = length (boxes roomStart)"
      "player st' = step Right (player roomStart)" "moveCount st' = moveCount roomStart + 1"
    by blast
  from r(1) have i0: "i = 0" by (simp add: roomStart_fields)
  from r(3) have "length (boxes st') = 1" by (simp add: roomStart_fields)
  with r(2) i0 have "boxes st' = [\<lparr>pt_x = 3, pt_y = 1\<rparr>]"
    by (cases "boxes st'") (simp_all add: roomStart_fields step_def)
  with m r(4,5) roomStart_push show ?thesis
    by (simp add: roomStart_fields step_def)
qed

text \<open>
  Claim C2 as stated fails. In the room \<^verbatim>\<open>#@$. #\<close>, after the winning push and once the
  victory modal is shown, the player stands next to the box, and the cell beyond the box
  is in bounds, floor and free; yet \<^verbatim>\<open>move\<close> to the right returns false and changes
  nothing, because of its first guard.
\<close>

theorem push_rejected_while_victory_shown:
  "step Right (player roomWon) \<in> set (boxes roomWon) \<and>
   inBounds (grid roomWon) (step Right (step Right (player roomWon))) \<and>
   cellAt (grid roomWon) (step Right (step Right (player roomWon))) = CHR '' '' \<and>
   step Right (step Right (player roomWon)) \<notin> set (boxes roomWon) \<and>
   move Right False roomWon = (False, roomWon)"
  using move_guard[of roomWon Right False]
  by (simp add: roomWon_fields step_def inBounds_def cellAt_def)

text \<open>
  Claim C3. After any run of \<open>N\<close> successful moves, \<open>N\<close> undos give back the player, the
  boxes, the move counter (and the history) of the state before the first move; no undo
  changes the grid or the goals; with an empty history an undo leaves the puzzle as it is
  and starts no solvability check.
\<close>

theorem undo_restores_after_moves:
  "(movesOk ms st = Some st' \<longrightarrow> puzzle (undos (length ms) st') = puzzle st) \<and>
   grid (undos n s) = grid s \<and> goals (undos n s) = goals s \<and>
   (moveHistory s = [] \<longrightarrow> puzzle (snd (undoMove s)) = puzzle s \<and> fst (undoMove s) = None)"
  using undos_after_moves[of ms st st'] undos_grid_goals[of n s] undoMove_empty[of s]
  by blast

theorem undo_restores_after_moves_witness:
  "movesOk [(Right, False), (Left, False)] roomStart \<noteq> None \<and>
   puzzle (undos 2 (the (movesOk [(Right, False), (Left, False)] roomStart))) = puzzle roomStart \<and>
   moveHistory roomStart = [] \<and> puzzle (snd (undoMove roomStart)) = puzzle roomStart"
proof -
  obtain s1 where s1: "s1 = snd (move Right False roomStart)" by simp
  have m1: "move Right False roomStart = (True, s1)"
    using roomPushed_fields(1) s1 by (cases "move Right False roomStart") simp
  obtain ok st2 where m2: "move Left False s1 = (ok, st2)" by (cases "move Left False s1")
  have h: "\<not> showVictoryModal s1" "\<not> isLoading s1"
    "\<not> impassable (grid s1) (step Left (player s1))"
    "step Left (player s1) \<notin> set (boxes s1)"
    by (simp_all add: s1 roomPushed_fields impassable_def inBounds_def cellAt_def step_def)
  from move_walk(1)[OF h m2] m2 have m2': "move Left False s1 = (True, st2)" by simp
  have ok: "movesOk [(Right, False), (Left, False)] roomStart = Some st2"
    by (simp add: m1 m2')
  from undo_restores_after_moves[of "[(Right, False), (Left, False)]" roomStart st2 0 roomStart] ok
  show ?thesis by (simp add: roomStart_fields numeral_2_eq_2)
qed

text \<open>
  Claim C5, as amended. A move appends the victory timeout to the pending timeouts exactly
  once when it is a successful push after which every box is on a goal, and appends
  nothing otherwise: a rejected move and a plain walking move never trigger the signal.
\<close>

theorem victory_signal_only_on_winning_push:
  assumes "move dir skip st = (ok, st')"
  shows "pendingTimeouts st' = pendingTimeouts st @
           (if ok \<and> step dir (player st) \<in> set (boxes st) \<and> isWin (boxes st') (goals st')
            then [ShowVictoryTimeout] else [])"
  using assms
proof (cases rule: move_cases)
  case rejected
  then show ?thesis by simp
next
  case walk
  from move_walk(8)[OF walk(2-5) assms] walk(5) show ?thesis by simp
next
  case (push i)
  from move_push(8)[OF push(2,3,4,6,7,8) assms] push(1,5) show ?thesis by simp
qed

theorem victory_signal_only_on_winning_push_witness:
  "move Right False roomStart = (True, snd (move Right False roomStart)) \<and>
   pendingTimeouts roomStart = [] \<and>
   pendingTimeouts (snd (move Right False roomStart)) = [ShowVictoryTimeout]"
proof -
  have m: "move Right False roomStart = (True, snd (move Right False roomStart))"
    using roomPushed_fields(1) by (cases "move Right False roomStart") simp
  from victory_signal_only_on_winning_push[OF m] show ?thesis
    using m by (simp add: roomStart_fields roomPushed_fields step_def isWin_def atCell_def)
qed

text \<open>
  Claim C5 as stated fails for walking. In the room \<^verbatim>\<open>#@ *#\<close> the only box is on the only
  goal; the step to the right succeeds and the win predicate holds in the state after it,
  but no victory timeout is pending: the walking branch does not evaluate the predicate.
\<close>

theorem walking_win_not_signalled:
  "fst (move Right False solvedStart) \<and>
   isWin (boxes (snd (move Right False solvedStart))) (goals (snd (move Right False solvedStart))) \<and>
   pendingTimeouts (snd (move Right False solvedStart)) = []"
proof -
  obtain ok st' where m: "move Right False solvedStart = (ok, st')" by (cases "move Right False solvedStart")
  have h: "\<not> showVictoryModal solvedStart" "\<not> isLoading solvedStart"
    "\<not> impassable (grid solvedStart) (step Right (player solvedStart))"
    "step Right (player solvedStart) \<notin> set (boxes solvedStart)"
    by (simp_all add: solvedStart_fields impassable_def inBounds_def cellAt_def step_def)
  note w = move_walk[OF h m]
  from w m show ?thesis by (simp add: solvedStart_fields isWin_def atCell_def)
qed

section \<open>Facts about the solvability orchestration\<close>

lemma resume_stale: "req_id r \<noteq> solvabilityRequestIdRef st \<Longrightarrow> checkSolvability_resume r res st = st"
  by (simp add: checkSolvability_resume_def Let_def split: SolverSearchMode.splits)

lemma resume_dropped: "dropped r st \<Longrightarrow> solverView (checkSolvability_resume r res st) = solverView st"
  by (auto simp add: dropped_def checkSolvability_resume_def Let_def solverView_def split: SolverSearchMode.splits)

lemma start_id:
  "solvabilityRequestIdRef (snd (checkSolvability_start gs opts st)) = Suc (solvabilityRequestIdRef st)"
  "req_id (fst (checkSolvability_start gs opts st)) = Suc (solvabilityRequestIdRef st)"
  by (simp_all add: checkSolvability_start_def Let_def abortCurrent_def split: option.splits)

lemma recordTiming_id: "solvabilityRequestIdRef (recordTiming res st) = solvabilityRequestIdRef st"
  by (simp add: recordTiming_def Let_def split: option.splits)

lemma applyFinal_id: "solvabilityRequestIdRef (applyFinal r res st) = solvabilityRequestIdRef st"
  by (simp add: applyFinal_def Let_def clearCache_def clearShownSolution_def
      split: Solvable3.splits option.splits)

lemma resume_id: "solvabilityRequestIdRef (checkSolvability_resume r res st) = solvabilityRequestIdRef st"
  by (simp add: checkSolvability_resume_def Let_def applyFinal_id recordTiming_id
      split: SolverSearchMode.splits)

lemma schedule_id: "solvabilityRequestIdRef (scheduleSolvabilityCheck gs opts ms st) = solvabilityRequestIdRef st"
  by (simp add: scheduleSolvabilityCheck_def Let_def abortCurrent_def split: option.splits)

lemma updateSolutionProgress_id:
  "solvabilityRequestIdRef (updateSolutionProgress d b sol k st) = solvabilityRequestIdRef st"
  by (simp add: updateSolutionProgress_def split: option.splits)

lemma move_id: "solvabilityRequestIdRef (snd (move d skip st)) = solvabilityRequestIdRef st"
  by (simp add: move_def Let_def schedule_id updateSolutionProgress_id saveState_def
      split: option.splits)

lemma undo_id: "solvabilityRequestIdRef st \<le> solvabilityRequestIdRef (snd (undoMove st))"
  by (simp add: undoMove_def Let_def stopAutoSolve_def checkSolvability_start_def abortCurrent_def
      split: option.splits prod.splits)

lemma applyEvent_id: "solvabilityRequestIdRef st \<le> solvabilityRequestIdRef (applyEvent e st)"
proof (cases e)
  case (EvMove d skip) then show ?thesis by (simp add: move_id)
next
  case EvUndo then show ?thesis by (simp add: undo_id)
next
  case (EvCheck gs opts) then show ?thesis by (simp add: start_id)
next
  case EvDebounce
  show ?thesis
  proof (cases "debounceFires st")
    case None with EvDebounce show ?thesis by simp
  next
    case (Some p)
    obtain r st' where p: "p = (r, st')" by (cases p)
    from Some p obtain t :: DebounceTimer and r0 where
      "checkSolvability_start (db_gameState t) (db_opts t) (st\<lparr>solvabilityDebounceTimerRef := None\<rparr>) = (r0, st')"
      by (auto simp: debounceFires_def split: option.splits prod.splits)
    from start_id(1)[of "db_gameState t" "db_opts t" "st\<lparr>solvabilityDebounceTimerRef := None\<rparr>"] this
    have "solvabilityRequestIdRef st' = Suc (solvabilityRequestIdRef st)" by simp
    with EvDebounce Some p show ?thesis by simp
  qed
next
  case (EvResponse r res) then show ?thesis by (simp add: resume_id)
next
  case (EvTimeout t) then show ?thesis
    by (simp add: timeoutFires_def Let_def split: Timeout.splits)
next
  case (EvInitLevel l) then show ?thesis
    by (simp add: initializeLevel_def Let_def stopAutoSolve_def start_id)
qed

lemma run_id: "solvabilityRequestIdRef st \<le> solvabilityRequestIdRef (run es st)"
proof (induction es arbitrary: st)
  case Nil show ?case by simp
next
  case (Cons e es)
  from applyEvent_id[of st e] Cons.IH[of "applyEvent e st"] show ?case by simp
qed

lemma start_cacheReset: "cacheReset (snd (checkSolvability_start gs opts st))"
  by (simp add: checkSolvability_start_def Let_def cacheReset_def)

lemma schedule_cacheReset: "cacheReset (scheduleSolvabilityCheck gs opts ms st) = cacheReset st"
  by (simp add: scheduleSolvabilityCheck_def Let_def abortCurrent_def cacheReset_def split: option.splits)

lemma updateSolutionProgress_cacheReset:
  "cacheReset (updateSolutionProgress d b sol k st) = cacheReset st"
  by (simp add: updateSolutionProgress_def cacheReset_def split: option.splits)

lemma move_cacheReset: "cacheReset (snd (move d skip st)) = cacheReset st"
proof -
  have a: "\<And>f s. cacheReset (s\<lparr>pendingTimeouts := f\<rparr>) = cacheReset s"
    by (simp add: cacheReset_def)
  have b: "\<And>s bs p n. cacheReset ((saveState s)\<lparr>boxes := bs, player := p, moveCount := n\<rparr>) = cacheReset s"
    by (simp add: cacheReset_def saveState_def)
  have c: "\<And>s p n. cacheReset ((saveState s)\<lparr>player := p, moveCount := n\<rparr>) = cacheReset s"
    by (simp add: cacheReset_def saveState_def)
  show ?thesis
    by (simp add: move_def Let_def schedule_cacheReset updateSolutionProgress_cacheReset a b c
        split: option.splits)
qed

lemma undo_cacheReset: "cacheReset st \<Longrightarrow> cacheReset (snd (undoMove st))"
proof (cases "moveHistory st = []")
  case True
  assume "cacheReset st"
  with True show ?thesis by (simp add: undoMove_def Let_def stopAutoSolve_def cacheReset_def)
next
  case False
  then show ?thesis
    by (simp add: undoMove_def Let_def split_beta start_cacheReset)
qed

lemma resume_cacheReset:
  "dropped r st \<Longrightarrow> cacheReset (checkSolvability_resume r res st) = cacheReset st"
  by (auto simp add: dropped_def checkSolvability_resume_def Let_def cacheReset_def
      split: SolverSearchMode.splits)

lemma timeout_cacheReset: "cacheReset (timeoutFires t st) = cacheReset st"
  by (simp add: timeoutFires_def Let_def cacheReset_def split: Timeout.splits)

lemma start_cacheReset_pair: "checkSolvability_start gs opts st = (r, st') \<Longrightarrow> cacheReset st'"
  using start_cacheReset[of gs opts st] by simp

lemma debounce_cacheReset: "cacheReset st \<Longrightarrow> cacheReset (applyEvent EvDebounce st)"
  by (auto simp add: debounceFires_def split: option.splits prod.splits dest: start_cacheReset_pair)

lemma inFlight_cacheReset:
  "cacheReset st \<Longrightarrow> inFlight es st \<Longrightarrow> cacheReset (run es st)"
proof (induction es arbitrary: st)
  case Nil
  then show ?case by simp
next
  case (Cons e es)
  have "cacheReset (applyEvent e st) \<and> inFlight es (applyEvent e st)"
  proof (cases e)
    case (EvMove d skip)
    with Cons.prems show ?thesis by (simp add: move_cacheReset)
  next
    case EvUndo
    with Cons.prems show ?thesis by (simp add: undo_cacheReset)
  next
    case (EvCheck gs opts)
    with Cons.prems show ?thesis by (simp add: start_cacheReset)
  next
    case EvDebounce
    with Cons.prems debounce_cacheReset[of st] show ?thesis by simp
  next
    case (EvResponse r res)
    with Cons.prems show ?thesis by (simp add: resume_cacheReset)
  next
    case (EvTimeout t)
    with Cons.prems show ?thesis by (simp add: timeout_cacheReset)
  next
    case (EvInitLevel l)
    with Cons.prems show ?thesis by (simp add: initializeLevel_def Let_def start_cacheReset)
  qed
  with Cons.IH[of "applyEvent e st"] show ?case by simp
qed

lemma applied_from_response:
  assumes "cacheReset st"
  shows "cachedSolution (checkSolvability_resume r res st) \<in> {None, res_solution res}"
    and "cachedHintMessage (checkSolvability_resume r res st) \<in> {None, res_hintMessage res}"
  using assms
  by (auto simp add: checkSolvability_resume_def Let_def cacheReset_def applyFinal_def recordTiming_def
      clearCache_def clearShownSolution_def
      split: SolverSearchMode.splits Solvable3.splits option.splits if_splits)

lemma roomStart_solver:
  "solvabilityRequestIdRef roomStart = 1" "abortedSignals roomStart = {}"
  "abortControllerRef roomStart = Some 1" "pendingTimeouts roomStart = []"
  by (simp_all add: roomStart_def initializeLevel_def roomLevel_def initialComponent_def
      checkSolvability_start_def stopAutoSolve_def abortCurrent_def Let_def)

lemma start_fields:
  "abortedSignals (snd (checkSolvability_start gs opts st)) =
     (case abortControllerRef st of None \<Rightarrow> abortedSignals st | Some c \<Rightarrow> insert c (abortedSignals st))"
  "abortControllerRef (snd (checkSolvability_start gs opts st)) = Some (Suc (solvabilityRequestIdRef st))"
  "req_mode (fst (checkSolvability_start gs opts st)) =
     (case opt_mode opts of Some m \<Rightarrow> m | None \<Rightarrow> solverMode st)"
  "req_refreshSolution (fst (checkSolvability_start gs opts st)) =
     (case opt_refreshSolution opts of Some b \<Rightarrow> b | None \<Rightarrow> False)"
  by (simp_all add: checkSolvability_start_def Let_def abortCurrent_def split: option.splits)

section \<open>Claims about the solvability orchestration\<close>

text \<open>
  Claim C4. Let query \<open>A\<close> be issued, then, after any events, query \<open>B\<close>. Then \<open>B\<close>'s
  request id is larger than \<open>A\<close>'s, and whenever \<open>A\<close>'s response arrives afterwards, after
  any further events and whatever it contains, the continuation of \<open>A\<close> returns the state
  unchanged: status, cached hint and solution, displayed plan and timing samples are as
  they were. In general a response whose request id is not the latest one, or whose
  signal is aborted, changes none of them.
\<close>

theorem stale_response_never_applied:
  assumes "checkSolvability_start gsA optsA st0 = (reqA, st1)"
    and "checkSolvability_start gsB optsB (run evs1 st1) = (reqB, st3)"
  shows "req_id reqA < req_id reqB \<and>
         checkSolvability_resume reqA res (run evs2 st3) = run evs2 st3 \<and>
         solverView (checkSolvability_resume reqA res (run evs2 st3)) = solverView (run evs2 st3) \<and>
         (dropped r st \<longrightarrow> solverView (checkSolvability_resume r res st) = solverView st)"
proof -
  from start_id[of gsA optsA st0] assms(1)
  have a: "req_id reqA = solvabilityRequestIdRef st1" by simp
  from start_id[of gsB optsB "run evs1 st1"] assms(2)
  have b: "req_id reqB = Suc (solvabilityRequestIdRef (run evs1 st1))"
    "solvabilityRequestIdRef st3 = req_id reqB" by simp_all
  from run_id[of st1 evs1] a b have lt: "req_id reqA < req_id reqB" by simp
  with run_id[of st3 evs2] b have "req_id reqA \<noteq> solvabilityRequestIdRef (run evs2 st3)" by simp
  from resume_stale[OF this] lt resume_dropped[of r st res] show ?thesis by simp
qed

text \<open>
  The check: in the room, \<open>A\<close> gets id 2 and \<open>B\<close> id 3; \<open>B\<close>'s answer is applied and caches
  its solution; \<open>A\<close>'s answer, arriving last, is a dropped one and changes nothing.
\<close>

theorem stale_response_never_applied_witness:
  "req_id (fst (checkSolvability_start roomGame fixedOpts roomStart)) = 2 \<and>
   req_id (fst (checkSolvability_start roomGame fixedOpts
                  (snd (checkSolvability_start roomGame fixedOpts roomStart)))) = 3 \<and>
   (let reqA = fst (checkSolvability_start roomGame fixedOpts roomStart);
        st1 = snd (checkSolvability_start roomGame fixedOpts roomStart);
        reqB = fst (checkSolvability_start roomGame fixedOpts st1);
        st3 = snd (checkSolvability_start roomGame fixedOpts st1);
        st4 = run [EvResponse reqB sampleResult] st3
    in cachedSolution st4 = Some [''right''] \<and> dropped reqA st4 \<and>
       checkSolvability_resume reqA sampleResult st4 = st4)"
proof -
  define reqA where "reqA = fst (checkSolvability_start roomGame fixedOpts roomStart)"
  define st1 where "st1 = snd (checkSolvability_start roomGame fixedOpts roomStart)"
  define reqB where "reqB = fst (checkSolvability_start roomGame fixedOpts st1)"
  define st3 where "st3 = snd (checkSolvability_start roomGame fixedOpts st1)"
  have a: "checkSolvability_start roomGame fixedOpts roomStart = (reqA, st1)"
    by (simp add: reqA_def st1_def)
  have b: "checkSolvability_start roomGame fixedOpts (run [] st1) = (reqB, st3)"
    by (simp add: reqB_def st3_def)
  note t = stale_response_never_applied[OF a b, of sampleResult "[EvResponse reqB sampleResult]"
      reqA "run [EvResponse reqB sampleResult] st3"]
  have ida: "req_id reqA = 2" "solvabilityRequestIdRef st1 = 2" "abortedSignals st1 = {1}"
    by (simp_all add: reqA_def st1_def start_id start_fields roomStart_solver)
  have idb: "req_id reqB = 3" "solvabilityRequestIdRef st3 = 3" "req_id reqB \<notin> abortedSignals st3"
    "req_mode reqB = Fixed" "req_refreshSolution reqB"
    by (simp_all add: reqB_def st3_def start_id start_fields ida fixedOpts_def st1_def roomStart_solver)
  have c: "cachedSolution (run [EvResponse reqB sampleResult] st3) = Some [''right'']"
    using idb
    by (simp add: checkSolvability_resume_def Let_def applyFinal_def recordTiming_def sampleResult_def
        truthy_def MAX_SOLUTION_MOVES_def)
  have d: "dropped reqA (run [EvResponse reqB sampleResult] st3)"
    using ida(1) idb(2) by (simp add: dropped_def resume_id)
  from t c d ida(1) idb(1) show ?thesis
    unfolding Let_def reqA_def[symmetric] st1_def[symmetric] reqB_def[symmetric] st3_def[symmetric]
    by blast
qed

text \<open>
  Claim C10. Every solvability check, before any response is applied, leaves the cached
  hint, the cached solution and the too-long flag empty and the status at checking. The
  four stay so through every run of events during which the latest query remains in
  flight; and when a response is applied at the end of such a run, the cached solution
  and hint are either empty or the ones of that response, whatever its kind.
\<close>

theorem check_resets_cache:
  "cacheReset (snd (checkSolvability_start gs opts st)) \<and>
   (inFlight evs (snd (checkSolvability_start gs opts st)) \<longrightarrow>
      cacheReset (run evs (snd (checkSolvability_start gs opts st))) \<and>
      cachedSolution (checkSolvability_resume r res (run evs (snd (checkSolvability_start gs opts st))))
        \<in> {None, res_solution res} \<and>
      cachedHintMessage (checkSolvability_resume r res (run evs (snd (checkSolvability_start gs opts st))))
        \<in> {None, res_hintMessage res})"
  using start_cacheReset[of gs opts st]
    inFlight_cacheReset[of "snd (checkSolvability_start gs opts st)" evs]
    applied_from_response[of "run evs (snd (checkSolvability_start gs opts st))" r res]
  by blast

theorem check_resets_cache_witness:
  "inFlight [EvTimeout ShowAlertTimeout,
             EvResponse (fst (checkSolvability_start roomGame fixedOpts initialComponent)) sampleResult]
            (snd (checkSolvability_start roomGame fixedOpts roomStart)) \<and>
   cacheReset (run [EvTimeout ShowAlertTimeout,
             EvResponse (fst (checkSolvability_start roomGame fixedOpts initialComponent)) sampleResult]
            (snd (checkSolvability_start roomGame fixedOpts roomStart)))"
proof -
  have "inFlight [EvTimeout ShowAlertTimeout,
             EvResponse (fst (checkSolvability_start roomGame fixedOpts initialComponent)) sampleResult]
            (snd (checkSolvability_start roomGame fixedOpts roomStart))"
    by (simp add: dropped_def timeoutFires_def checkSolvability_start_def Let_def abortCurrent_def
        roomStart_solver initialComponent_def)
  with check_resets_cache[of roomGame fixedOpts roomStart "[EvTimeout ShowAlertTimeout,
             EvResponse (fst (checkSolvability_start roomGame fixedOpts initialComponent)) sampleResult]"]
  show ?thesis by blast
qed

section \<open>Facts about the level parser\<close>

lemma length_le_levelWidth: "r \<in> set rows \<Longrightarrow> length r \<le> levelWidth rows"
  by (induction rows) (auto simp: levelWidth_def)

lemma buildRawGrid_length: "length (buildRawGrid rows) = length rows"
  by (simp add: buildRawGrid_def)

lemma buildRawGrid_row:
  "y < length rows \<Longrightarrow> length (buildRawGrid rows ! y) = levelWidth rows"
  by (simp add: buildRawGrid_def)

lemma buildRawGrid_cell:
  "y < length rows \<Longrightarrow> x < levelWidth rows \<Longrightarrow>
   buildRawGrid rows ! y ! x = rawCell rows (int x) (int y)"
  by (simp add: buildRawGrid_def rawCell_def)

lemma raw_nat:
  "inRect rows x y \<Longrightarrow> buildRawGrid rows ! nat y ! nat x = rawCell rows x y"
  using buildRawGrid_cell[of "nat y" rows "nat x"] by (auto simp add: inRect_def nat_less_iff)

text \<open>What one call of enqueueIfVoidSpace does, in terms of blanks.\<close>

lemma enqueue_cases:
  fixes rows
  defines "w \<equiv> int (levelWidth rows)" and "h \<equiv> int (length rows)" and "raw \<equiv> buildRawGrid rows"
  shows "enqueueIfVoidSpace w h raw a b s =
           (if blank rows a b \<and> \<not> fst s b a
            then ((fst s)(b := (fst s b)(a := True)), snd s @ [(a, b)]) else s)"
proof (cases "inRect rows a b")
  case True
  from raw_nat[OF True] True show ?thesis
    by (auto simp add: enqueueIfVoidSpace_def blank_def inRect_def w_def h_def raw_def)
next
  case False
  then show ?thesis
    by (auto simp add: enqueueIfVoidSpace_def blank_def inRect_def w_def h_def raw_def)
qed

lemma enq_eq:
  "enq rows a b s =
     (if blank rows a b \<and> \<not> fst s b a
      then ((fst s)(b := (fst s b)(a := True)), snd s @ [(a, b)]) else s)"
  by (rule enqueue_cases)

lemma enq_grow: "fst s y x \<Longrightarrow> fst (enq rows a b s) y x"
  by (auto simp add: enq_eq)

lemma enq_queue: "p \<in> set (snd s) \<Longrightarrow> p \<in> set (snd (enq rows a b s))"
  by (simp add: enq_eq)

lemma enq_marks: "blank rows a b \<Longrightarrow> fst (enq rows a b s) b a"
  by (simp add: enq_eq)

lemma enq_new: "fst (enq rows a b s) y x \<Longrightarrow> fst s y x \<or> (x, y) \<in> set (snd (enq rows a b s))"
  by (auto simp add: enq_eq split: if_splits)

lemma enq_sound:
  assumes "fillSound rows s" and "blank rows a b \<Longrightarrow> exterior rows a b"
  shows "fillSound rows (enq rows a b s)"
  using assms by (auto simp add: fillSound_def enq_eq)

lemma closedAt_grow:
  "closedAt rows iv x y \<Longrightarrow> (\<And>x y. iv y x \<Longrightarrow> iv' y x) \<Longrightarrow> closedAt rows iv' x y"
  by (auto simp add: closedAt_def)

lemma enq_closed:
  assumes "fillClosed rows s"
  shows "fillClosed rows (enq rows a b s)"
  unfolding fillClosed_def
proof (intro allI impI)
  fix x y assume m: "fst (enq rows a b s) y x"
  from enq_new[OF m] show "(x, y) \<in> set (snd (enq rows a b s)) \<or> closedAt rows (fst (enq rows a b s)) x y"
  proof
    assume "fst s y x"
    with assms have "(x, y) \<in> set (snd s) \<or> closedAt rows (fst s) x y" by (simp add: fillClosed_def)
    then show ?thesis
      using enq_queue[of "(x, y)" s rows a b] closedAt_grow[of rows "fst s" x y "fst (enq rows a b s)"] enq_grow[of s _ _ rows a b]
      by blast
  qed simp
qed

lemma enq_seeds: "seedsMarked rows (fst s) \<Longrightarrow> seedsMarked rows (fst (enq rows a b s))"
  by (auto simp add: seedsMarked_def intro: enq_grow)

text \<open>The seeding loops.\<close>

lemma fold_invariant:
  assumes "P s" and "\<And>x s. x \<in> set xs \<Longrightarrow> P s \<Longrightarrow> P (f x s)"
  shows "P (fold f xs s)"
  using assms by (induction xs arbitrary: s) auto

lemma fold_reaches:
  assumes "x \<in> set xs" and "\<And>s. Q (f x s)" and "\<And>x' s. x' \<in> set xs \<Longrightarrow> Q s \<Longrightarrow> Q (f x' s)"
  shows "Q (fold f xs s)"
  using assms
proof (induction xs arbitrary: s)
  case Nil then show ?case by simp
next
  case (Cons a xs)
  show ?case
  proof (cases "x = a")
    case True
    have "Q (f a s)" using Cons.prems(2) True by simp
    then have "Q (fold f xs (f a s))" by (rule fold_invariant[where P = Q]) (rule Cons.prems(3), simp)
    then show ?thesis by simp
  next
    case False
    with Cons.prems(1) have "x \<in> set xs" by simp
    from Cons.IH[OF this Cons.prems(2)] Cons.prems(3) show ?thesis by simp
  qed
qed

lemma boundary_exterior: "onBoundary rows a b \<Longrightarrow> blank rows a b \<Longrightarrow> exterior rows a b"
  by (rule exterior.seed)

lemma seedTopBottom_sound:
  assumes "fillSound rows s"
  shows "fillSound rows (seedTopBottom (int (levelWidth rows)) (int (length rows)) (buildRawGrid rows) s)"
  unfolding seedTopBottom_def
  by (rule fold_invariant[where P = "fillSound rows", OF assms]) (auto intro!: enq_sound boundary_exterior simp: onBoundary_def)

lemma seedLeftRight_sound:
  assumes "fillSound rows s"
  shows "fillSound rows (seedLeftRight (int (levelWidth rows)) (int (length rows)) (buildRawGrid rows) s)"
  unfolding seedLeftRight_def
  by (rule fold_invariant[where P = "fillSound rows", OF assms]) (auto intro!: enq_sound boundary_exterior simp: onBoundary_def)

lemma seedTopBottom_closed:
  assumes "fillClosed rows s"
  shows "fillClosed rows (seedTopBottom (int (levelWidth rows)) (int (length rows)) (buildRawGrid rows) s)"
  unfolding seedTopBottom_def
  by (rule fold_invariant[where P = "fillClosed rows", OF assms]) (auto intro!: enq_closed)

lemma seedLeftRight_closed:
  assumes "fillClosed rows s"
  shows "fillClosed rows (seedLeftRight (int (levelWidth rows)) (int (length rows)) (buildRawGrid rows) s)"
  unfolding seedLeftRight_def
  by (rule fold_invariant[where P = "fillClosed rows", OF assms]) (auto intro!: enq_closed)

lemma seedLeftRight_grow:
  assumes "fst s y x"
  shows "fst (seedLeftRight (int (levelWidth rows)) (int (length rows)) (buildRawGrid rows) s) y x"
  unfolding seedLeftRight_def
  by (rule fold_invariant[where P = "\<lambda>s. fst s y x", OF assms]) (auto intro!: enq_grow)

lemma seedTopBottom_marks:
  assumes "blank rows a b" and "b = 0 \<or> b = int (length rows) - 1"
  shows "fst (seedTopBottom (int (levelWidth rows)) (int (length rows)) (buildRawGrid rows) s) b a"
  unfolding seedTopBottom_def
proof (rule fold_reaches[where x = a and Q = "\<lambda>s. fst s b a"])
  from assms(1) show "a \<in> set [0..int (levelWidth rows) - 1]"
    by (auto simp add: blank_def inRect_def)
next
  fix s
  from assms show "fst (enq rows a (int (length rows) - 1) (enq rows a 0 s)) b a"
    by (auto intro: enq_marks enq_grow)
next
  fix x' and s :: "VoidMap \<times> (int \<times> int) list" assume "fst s b a"
  then show "fst (enq rows x' (int (length rows) - 1) (enq rows x' 0 s)) b a"
    by (auto intro: enq_grow)
qed

lemma seedLeftRight_marks:
  assumes "blank rows a b" and "a = 0 \<or> a = int (levelWidth rows) - 1"
  shows "fst (seedLeftRight (int (levelWidth rows)) (int (length rows)) (buildRawGrid rows) s) b a"
  unfolding seedLeftRight_def
proof (rule fold_reaches[where x = b and Q = "\<lambda>s. fst s b a"])
  from assms(1) show "b \<in> set [0..int (length rows) - 1]"
    by (auto simp add: blank_def inRect_def)
next
  fix s
  from assms show "fst (enq rows (int (levelWidth rows) - 1) b (enq rows 0 b s)) b a"
    by (auto intro: enq_marks enq_grow)
next
  fix x' and s :: "VoidMap \<times> (int \<times> int) list" assume "fst s b a"
  then show "fst (enq rows (int (levelWidth rows) - 1) x' (enq rows 0 x' s)) b a"
    by (auto intro: enq_grow)
qed

lemma seeded_invariants:
  "fillSound rows (seeded rows)" "fillClosed rows (seeded rows)" "seedsMarked rows (fst (seeded rows))"
proof -
  have s0: "fillSound rows (\<lambda>y x. False, [])" by (simp add: fillSound_def)
  have c0: "fillClosed rows (\<lambda>y x. False, [])" by (simp add: fillClosed_def)
  show "fillSound rows (seeded rows)"
    unfolding seeded_def by (intro seedLeftRight_sound seedTopBottom_sound s0)
  show "fillClosed rows (seeded rows)"
    unfolding seeded_def by (intro seedLeftRight_closed seedTopBottom_closed c0)
  show "seedsMarked rows (fst (seeded rows))"
    unfolding seedsMarked_def seeded_def
  proof (intro allI impI)
    fix x y assume a: "blank rows x y \<and> onBoundary rows x y"
    then consider "y = 0 \<or> y = int (length rows) - 1" | "x = 0 \<or> x = int (levelWidth rows) - 1"
      by (auto simp add: onBoundary_def)
    then show "fst (seedLeftRight (int (levelWidth rows)) (int (length rows)) (buildRawGrid rows)
                 (seedTopBottom (int (levelWidth rows)) (int (length rows)) (buildRawGrid rows)
                    (\<lambda>y x. False, []))) y x"
    proof cases
      case 1
      with a show ?thesis by (intro seedLeftRight_grow seedTopBottom_marks) auto
    next
      case 2
      with a show ?thesis by (intro seedLeftRight_marks) auto
    qed
  qed
qed

lemma enqN_grow: "fst s y x \<Longrightarrow> fst (enqN rows a b s) y x"
  by (simp add: enqueueNeighbours_def enq_grow)

lemma enqN_queue: "p \<in> set (snd s) \<Longrightarrow> p \<in> set (snd (enqN rows a b s))"
  by (simp add: enqueueNeighbours_def enq_queue)

lemma enqN_new: "fst (enqN rows a b s) y x \<Longrightarrow> fst s y x \<or> (x, y) \<in> set (snd (enqN rows a b s))"
  unfolding enqueueNeighbours_def
  by (meson enq_new enq_queue)

lemma enqN_marks:
  assumes "p \<in> set (neighbours a b)" "blank rows (fst p) (snd p)"
  shows "fst (enqN rows a b s) (snd p) (fst p)"
  using assms unfolding enqueueNeighbours_def neighbours_def
  by (auto intro: enq_marks) (blast intro: enq_marks enq_grow)+

lemma enqN_closedAt: "closedAt rows (fst (enqN rows a b s)) a b"
  unfolding closedAt_def by (auto intro: enqN_marks)

lemma neighbour_exterior:
  assumes "exterior rows a b" "p \<in> set (neighbours a b)" "blank rows (fst p) (snd p)"
  shows "exterior rows (fst p) (snd p)"
  using assms
  by (auto simp add: neighbours_def intro: exterior.left exterior.right exterior.up exterior.down)

lemma enqN_sound:
  assumes "fillSound rows s" "exterior rows a b"
  shows "fillSound rows (enqN rows a b s)"
  unfolding enqueueNeighbours_def
  using assms
  by (auto intro!: enq_sound intro: exterior.left exterior.right exterior.up exterior.down)

lemma enqN_closed:
  assumes "fillClosed rows (iv, (a, b) # q)"
  shows "fillClosed rows (enqN rows a b (iv, q))"
  unfolding fillClosed_def
proof (intro allI impI)
  fix x y
  let ?s' = "enqN rows a b (iv, q)"
  assume m: "fst ?s' y x"
  from enqN_new[OF m] show "(x, y) \<in> set (snd ?s') \<or> closedAt rows (fst ?s') x y"
  proof
    assume "fst (iv, q) y x"
    then have "iv y x" by simp
    with assms have "(x, y) = (a, b) \<or> (x, y) \<in> set q \<or> closedAt rows iv x y"
      by (auto simp add: fillClosed_def)
    then show ?thesis
    proof (elim disjE)
      assume "(x, y) = (a, b)"
      then show ?thesis using enqN_closedAt[of rows a b "(iv, q)"] by simp
    next
      assume "(x, y) \<in> set q"
      then show ?thesis using enqN_queue[of "(x, y)" "(iv, q)" rows a b] by simp
    next
      assume "closedAt rows iv x y"
      then have "closedAt rows (fst ?s') x y"
        by (rule closedAt_grow) (rule enqN_grow, simp)
      then show ?thesis by simp
    qed
  qed simp
qed

lemma enqN_seeds: "seedsMarked rows (fst s) \<Longrightarrow> seedsMarked rows (fst (enqN rows a b s))"
  by (auto simp add: seedsMarked_def intro: enqN_grow)

lemma closed_exterior:
  assumes "seedsMarked rows iv" and "fillClosed rows (iv, [])" and "exterior rows x y"
  shows "iv y x"
  using assms(3)
proof (induction rule: exterior.induct)
  case (seed x y)
  with assms(1) show ?case by (simp add: seedsMarked_def)
next
  case (left x y)
  with assms(2) have "closedAt rows iv x y" by (simp add: fillClosed_def)
  with left.hyps(2) show ?case by (auto simp add: closedAt_def neighbours_def)
next
  case (right x y)
  with assms(2) have "closedAt rows iv x y" by (simp add: fillClosed_def)
  with right.hyps(2) show ?case by (auto simp add: closedAt_def neighbours_def)
next
  case (up x y)
  with assms(2) have "closedAt rows iv x y" by (simp add: fillClosed_def)
  with up.hyps(2) show ?case by (auto simp add: closedAt_def neighbours_def)
next
  case (down x y)
  with assms(2) have "closedAt rows iv x y" by (simp add: fillClosed_def)
  with down.hyps(2) show ?case by (auto simp add: closedAt_def neighbours_def)
qed

lemma floodFill_exterior:
  assumes "w = int (levelWidth rows)" "h = int (length rows)" "raw = buildRawGrid rows"
    and "fillSound rows s" "fillClosed rows s" "seedsMarked rows (fst s)"
  shows "floodFill w h raw s y x = exterior rows x y"
  using assms
proof (induction w h raw s rule: floodFill.induct)
  case (1 width height rawGrid isVoid)
  from 1(4) have "isVoid y x \<Longrightarrow> exterior rows x y" by (simp add: fillSound_def)
  moreover from closed_exterior[of rows isVoid x y] 1(5,6) have "exterior rows x y \<Longrightarrow> isVoid y x" by simp
  ultimately show ?case by auto
next
  case (2 width height rawGrid isVoid a b queue)
  from 2(5) have ext: "exterior rows a b" and snd0: "fillSound rows (isVoid, queue)"
    by (auto simp add: fillSound_def)
  have s: "fillSound rows (enqN rows a b (isVoid, queue))" by (rule enqN_sound[OF snd0 ext])
  have c: "fillClosed rows (enqN rows a b (isVoid, queue))" by (rule enqN_closed[OF 2(6)])
  have m: "seedsMarked rows (fst (enqN rows a b (isVoid, queue)))" using 2(7) enqN_seeds[of rows "(isVoid, queue)"] by simp
  from 2(1)[OF 2(2,3,4)] s c m 2(2,3,4) show ?case by simp
qed

lemma voidCells_exterior: "voidCells rows y x = exterior rows x y"
  using floodFill_exterior[OF refl refl refl seeded_invariants, of rows y x]
  by (simp add: voidCells_def seeded_def Let_def)

lemma parseCell_simps:
  "acc_gridRow (parseCell iv raw y x acc) = acc_gridRow acc @ [outChar (raw ! y ! x) (iv (int y) (int x))]"
  "acc_boxes (parseCell iv raw y x acc) =
     acc_boxes acc @ (if raw ! y ! x = CHR ''$'' \<or> raw ! y ! x = CHR ''*''
                      then [\<lparr>pt_x = int x, pt_y = int y\<rparr>] else [])"
  "acc_goals (parseCell iv raw y x acc) =
     acc_goals acc @ (if raw ! y ! x = CHR ''.'' \<or> raw ! y ! x = CHR ''*'' \<or> raw ! y ! x = CHR ''+''
                      then [\<lparr>pt_x = int x, pt_y = int y\<rparr>] else [])"
  "acc_player (parseCell iv raw y x acc) =
     (if raw ! y ! x = CHR ''@'' \<or> raw ! y ! x = CHR ''+''
      then \<lparr>pt_x = int x, pt_y = int y\<rparr> else acc_player acc)"
  by (simp_all add: parseCell_def Let_def outChar_def)

lemma fold_upt_Suc: "fold f [0..<Suc n] s = f n (fold f [0..<n] s)"
  by simp

lemma rowFold_gridRow:
  "acc_gridRow (fold (parseCell iv raw y) [0..<n] acc) =
     acc_gridRow acc @ map (\<lambda>x. outChar (raw ! y ! x) (iv (int y) (int x))) [0..<n]"
  by (induction n) (simp_all add: parseCell_simps)

lemma parseRow_fst:
  "fst (parseRow iv raw w y s) =
     fst s @ [map (\<lambda>x. outChar (raw ! y ! x) (iv (int y) (int x))) [0..<w]]"
  by (simp add: parseRow_def Let_def rowFold_gridRow)

lemma rowsFold_grid:
  "fst (fold (parseRow iv raw w) [0..<m] s) =
     fst s @ map (\<lambda>y. map (\<lambda>x. outChar (raw ! y ! x) (iv (int y) (int x))) [0..<w]) [0..<m]"
  by (induction m) (simp_all add: parseRow_fst)

lemma parsedGrid_eq:
  "parsedGrid (parseLevel rows) =
     map (\<lambda>y. map (\<lambda>x. outChar (buildRawGrid rows ! y ! x) (voidCells rows (int y) (int x)))
                [0..<levelWidth rows]) [0..<length rows]"
  by (simp add: parseLevel_def Let_def rowsFold_grid)

lemma parsedGrid_cell:
  assumes "inRect rows x y"
  shows "parsedGrid (parseLevel rows) ! nat y ! nat x = outChar (rawCell rows x y) (exterior rows x y)"
proof -
  from assms have r: "nat y < length rows" "nat x < levelWidth rows" "0 \<le> x" "0 \<le> y"
    by (auto simp add: inRect_def nat_less_iff)
  then show ?thesis
    using raw_nat[OF assms]
    by (simp add: parsedGrid_eq voidCells_exterior)
qed

lemma exterior_blank: "exterior rows x y \<Longrightarrow> blank rows x y"
  by (induction rule: exterior.induct) auto

text \<open>Boxes, goals and the player through the two loops.\<close>

lemma rows_invariant:
  assumes "QQ (snd s)"
    and "\<And>y x acc. y < h \<Longrightarrow> x < w \<Longrightarrow> QQ acc \<Longrightarrow> QQ (parseCell iv raw y x acc)"
    and "\<And>acc r. QQ (acc\<lparr>acc_gridRow := r\<rparr>) = QQ acc"
  shows "QQ (snd (fold (parseRow iv raw w) [0..<h] s))"
proof (rule fold_invariant[where P = "\<lambda>s. QQ (snd s)", OF assms(1)])
  fix y and s :: "char list list \<times> ParseAcc" assume y: "y \<in> set [0..<h]" and q: "QQ (snd s)"
  have "QQ (fold (parseCell iv raw y) [0..<w] ((snd s)\<lparr>acc_gridRow := []\<rparr>))"
  proof (rule fold_invariant[where P = QQ])
    from q show "QQ ((snd s)\<lparr>acc_gridRow := []\<rparr>)" by (simp add: assms(3))
  next
    fix x acc assume "x \<in> set [0..<w]" "QQ acc"
    with y show "QQ (parseCell iv raw y x acc)" by (intro assms(2)) auto
  qed
  then show "QQ (snd (parseRow iv raw w y s))" by (simp add: parseRow_def Let_def)
qed

lemma rows_reach:
  assumes "y0 < h" "x0 < w"
    and "\<And>acc. QQ (parseCell iv raw y0 x0 acc)"
    and "\<And>y x acc. y < h \<Longrightarrow> x < w \<Longrightarrow> QQ acc \<Longrightarrow> QQ (parseCell iv raw y x acc)"
    and "\<And>acc r. QQ (acc\<lparr>acc_gridRow := r\<rparr>) = QQ acc"
  shows "QQ (snd (fold (parseRow iv raw w) [0..<h] s))"
proof (rule fold_reaches[where Q = "\<lambda>s. QQ (snd s)" and x = y0])
  from assms(1) show "y0 \<in> set [0..<h]" by simp
next
  fix s :: "char list list \<times> ParseAcc"
  have "QQ (fold (parseCell iv raw y0) [0..<w] ((snd s)\<lparr>acc_gridRow := []\<rparr>))"
  proof (rule fold_reaches[where Q = QQ and x = x0])
    from assms(2) show "x0 \<in> set [0..<w]" by simp
  next
    fix acc show "QQ (parseCell iv raw y0 x0 acc)" by (rule assms(3))
  next
    fix x acc assume "x \<in> set [0..<w]" "QQ acc"
    with assms(1) show "QQ (parseCell iv raw y0 x acc)" by (intro assms(4)) auto
  qed
  then show "QQ (snd (parseRow iv raw w y0 s))" by (simp add: parseRow_def Let_def)
next
  fix y and s :: "char list list \<times> ParseAcc"
  assume y: "y \<in> set [0..<h]" and q: "QQ (snd s)"
  have "QQ (fold (parseCell iv raw y) [0..<w] ((snd s)\<lparr>acc_gridRow := []\<rparr>))"
  proof (rule fold_invariant[where P = QQ])
    from q show "QQ ((snd s)\<lparr>acc_gridRow := []\<rparr>)" by (simp add: assms(5))
  next
    fix x acc assume "x \<in> set [0..<w]" "QQ acc"
    with y show "QQ (parseCell iv raw y x acc)" by (intro assms(4)) auto
  qed
  then show "QQ (snd (parseRow iv raw w y s))" by (simp add: parseRow_def Let_def)
qed

lemma box_recorded:
  assumes "inRect rows x y" and "rawCell rows x y = CHR ''$'' \<or> rawCell rows x y = CHR ''*''"
  shows "\<lparr>pt_x = x, pt_y = y\<rparr> \<in> set (initialBoxes (parseLevel rows))"
proof -
  from assms(1) have r: "nat y < length rows" "nat x < levelWidth rows" "0 \<le> x" "0 \<le> y"
    by (auto simp add: inRect_def nat_less_iff)
  have "\<lparr>pt_x = x, pt_y = y\<rparr> \<in> set (acc_boxes (snd (fold
          (parseRow (voidCells rows) (buildRawGrid rows) (levelWidth rows)) [0..<length rows]
          ([], \<lparr>acc_gridRow = [], acc_boxes = [], acc_goals = [],
                acc_player = \<lparr>pt_x = 0, pt_y = 0\<rparr>\<rparr>))))"
  proof (rule rows_reach[where QQ = "\<lambda>acc. \<lparr>pt_x = x, pt_y = y\<rparr> \<in> set (acc_boxes acc)", OF r(1,2)])
    fix acc
    from assms(2) raw_nat[OF assms(1)] r(3,4)
    show "\<lparr>pt_x = x, pt_y = y\<rparr> \<in> set (acc_boxes (parseCell (voidCells rows) (buildRawGrid rows) (nat y) (nat x) acc))"
      by (auto simp add: parseCell_simps)
  qed (auto simp add: parseCell_simps)
  then show ?thesis by (simp add: parseLevel_def Let_def)
qed

lemma goal_recorded:
  assumes "inRect rows x y"
    and "rawCell rows x y = CHR ''.'' \<or> rawCell rows x y = CHR ''*'' \<or> rawCell rows x y = CHR ''+''"
  shows "\<lparr>pt_x = x, pt_y = y\<rparr> \<in> set (lvl_goals (parseLevel rows))"
proof -
  from assms(1) have r: "nat y < length rows" "nat x < levelWidth rows" "0 \<le> x" "0 \<le> y"
    by (auto simp add: inRect_def nat_less_iff)
  have "\<lparr>pt_x = x, pt_y = y\<rparr> \<in> set (acc_goals (snd (fold
          (parseRow (voidCells rows) (buildRawGrid rows) (levelWidth rows)) [0..<length rows]
          ([], \<lparr>acc_gridRow = [], acc_boxes = [], acc_goals = [],
                acc_player = \<lparr>pt_x = 0, pt_y = 0\<rparr>\<rparr>))))"
  proof (rule rows_reach[where QQ = "\<lambda>acc. \<lparr>pt_x = x, pt_y = y\<rparr> \<in> set (acc_goals acc)", OF r(1,2)])
    fix acc
    from assms(2) raw_nat[OF assms(1)] r(3,4)
    show "\<lparr>pt_x = x, pt_y = y\<rparr> \<in> set (acc_goals (parseCell (voidCells rows) (buildRawGrid rows) (nat y) (nat x) acc))"
      by (auto simp add: parseCell_simps)
  qed (auto simp add: parseCell_simps)
  then show ?thesis by (simp add: parseLevel_def Let_def)
qed

lemma rawCell_no_player:
  assumes "\<not> hasPlayerSymbol rows" "y < length rows"
  shows "rawCell rows (int x) (int y) \<noteq> CHR ''@'' \<and> rawCell rows (int x) (int y) \<noteq> CHR ''+''"
proof (cases "x < length (rows ! y)")
  case True
  from assms have "CHR ''@'' \<notin> set (rows ! y) \<and> CHR ''+'' \<notin> set (rows ! y)"
    by (auto simp add: hasPlayerSymbol_def list_ex_iff)
  moreover from True have "rows ! y ! x \<in> set (rows ! y)" by simp
  ultimately have "rows ! y ! x \<noteq> CHR ''@'' \<and> rows ! y ! x \<noteq> CHR ''+''" by metis
  then show ?thesis using True by (simp add: rawCell_def)
next
  case False
  then show ?thesis by (simp add: rawCell_def)
qed

lemma hasPlayer_cell:
  assumes "hasPlayerSymbol rows"
  obtains x y where "y < length rows" "x < levelWidth rows"
    "rawCell rows (int x) (int y) = CHR ''@'' \<or> rawCell rows (int x) (int y) = CHR ''+''"
proof -
  from assms obtain row where row: "row \<in> set rows" "CHR ''@'' \<in> set row \<or> CHR ''+'' \<in> set row"
    by (auto simp add: hasPlayerSymbol_def list_ex_iff)
  then obtain y where y: "y < length rows" "rows ! y = row" by (auto simp add: in_set_conv_nth)
  from row(2) obtain x where x: "x < length row" "row ! x = CHR ''@'' \<or> row ! x = CHR ''+''"
    by (auto simp add: in_set_conv_nth)
  from length_le_levelWidth[OF row(1)] x(1) have "x < levelWidth rows" by simp
  moreover from x y have "rawCell rows (int x) (int y) = CHR ''@'' \<or> rawCell rows (int x) (int y) = CHR ''+''"
    by (simp add: rawCell_def)
  ultimately show ?thesis using y(1) that by blast
qed

lemma player_default:
  assumes "\<not> hasPlayerSymbol rows"
  shows "initialPlayer (parseLevel rows) = \<lparr>pt_x = 0, pt_y = 0\<rparr>"
proof -
  have "acc_player (snd (fold
          (parseRow (voidCells rows) (buildRawGrid rows) (levelWidth rows)) [0..<length rows]
          ([], \<lparr>acc_gridRow = [], acc_boxes = [], acc_goals = [],
                acc_player = \<lparr>pt_x = 0, pt_y = 0\<rparr>\<rparr>))) = \<lparr>pt_x = 0, pt_y = 0\<rparr>"
  proof (rule rows_invariant[where QQ = "\<lambda>acc. acc_player acc = \<lparr>pt_x = 0, pt_y = 0\<rparr>"])
    fix y x and acc :: ParseAcc assume "y < length rows" "x < levelWidth rows" "acc_player acc = \<lparr>pt_x = 0, pt_y = 0\<rparr>"
    with rawCell_no_player[OF assms, of y x] buildRawGrid_cell[of y rows x]
    show "acc_player (parseCell (voidCells rows) (buildRawGrid rows) y x acc) = \<lparr>pt_x = 0, pt_y = 0\<rparr>"
      by (simp add: parseCell_simps)
  qed simp_all
  then show ?thesis by (simp add: parseLevel_def Let_def)
qed

lemma player_on_symbol:
  assumes "hasPlayerSymbol rows"
  shows "playerCell rows (initialPlayer (parseLevel rows))"
proof -
  from assms obtain x0 y0 where c: "y0 < length rows" "x0 < levelWidth rows"
    "rawCell rows (int x0) (int y0) = CHR ''@'' \<or> rawCell rows (int x0) (int y0) = CHR ''+''"
    by (rule hasPlayer_cell)
  have "playerCell rows (acc_player (snd (fold
          (parseRow (voidCells rows) (buildRawGrid rows) (levelWidth rows)) [0..<length rows]
          ([], \<lparr>acc_gridRow = [], acc_boxes = [], acc_goals = [],
                acc_player = \<lparr>pt_x = 0, pt_y = 0\<rparr>\<rparr>))))"
  proof (rule rows_reach[where QQ = "\<lambda>acc. playerCell rows (acc_player acc)", OF c(1,2)])
    fix acc
    from c buildRawGrid_cell[OF c(1,2)]
    show "playerCell rows (acc_player (parseCell (voidCells rows) (buildRawGrid rows) y0 x0 acc))"
      by (auto simp add: parseCell_simps playerCell_def inRect_def)
  next
    fix y x and acc :: ParseAcc assume "y < length rows" "x < levelWidth rows" "playerCell rows (acc_player acc)"
    with buildRawGrid_cell[of y rows x]
    show "playerCell rows (acc_player (parseCell (voidCells rows) (buildRawGrid rows) y x acc))"
      by (auto simp add: parseCell_simps playerCell_def inRect_def)
  qed simp
  then show ?thesis by (simp add: parseLevel_def Let_def)
qed

lemma parsedGrid_shape:
  "length (parsedGrid (parseLevel rows)) = length rows"
  "r \<in> set (parsedGrid (parseLevel rows)) \<Longrightarrow> length r = levelWidth rows"
  by (auto simp add: parsedGrid_eq)

section \<open>Claims about the level parser\<close>

text \<open>
  Claim C6, as amended. \<^verbatim>\<open>parseLevel\<close> has no failing path: for every level text it
  returns a level whose grid has one row per text row, each as wide as the longest text
  row. Without a player symbol the returned player is the default point \<open>(0, 0)\<close>; with a
  player symbol the returned player stands on a cell of the rectangle that holds one.
\<close>

theorem parseLevel_total_player:
  "length (parsedGrid (parseLevel rows)) = length rows \<and>
   (\<forall>r \<in> set (parsedGrid (parseLevel rows)). length r = levelWidth rows) \<and>
   (\<not> hasPlayerSymbol rows \<longrightarrow> initialPlayer (parseLevel rows) = \<lparr>pt_x = 0, pt_y = 0\<rparr>) \<and>
   (hasPlayerSymbol rows \<longrightarrow> playerCell rows (initialPlayer (parseLevel rows)))"
  using parsedGrid_shape[where rows = rows] player_default[of rows] player_on_symbol[of rows]
  by blast

theorem parseLevel_total_player_witness:
  "\<not> hasPlayerSymbol noPlayerRows \<and>
   initialPlayer (parseLevel noPlayerRows) = \<lparr>pt_x = 0, pt_y = 0\<rparr> \<and>
   hasPlayerSymbol islandRows \<and>
   playerCell islandRows (initialPlayer (parseLevel islandRows)) \<and>
   length (parsedGrid (parseLevel islandRows)) = 5"
proof -
  have a: "\<not> hasPlayerSymbol noPlayerRows" by (simp add: noPlayerRows_def hasPlayerSymbol_def)
  have b: "hasPlayerSymbol islandRows" by (simp add: islandRows_def hasPlayerSymbol_def)
  have c: "length islandRows = 5" by (simp add: islandRows_def)
  from parseLevel_total_player[of noPlayerRows] parseLevel_total_player[of islandRows] a b c
  show ?thesis by simp
qed

text \<open>
  Claim C6 as stated fails. The text \<^verbatim>\<open>#####\<close>, \<^verbatim>\<open># $.#\<close>, \<^verbatim>\<open>#####\<close> has no player symbol, and
  \<^verbatim>\<open>parseLevel\<close> returns a level for it, with the player on the wall cell \<open>(0, 0)\<close>; no error
  is reported.
\<close>

theorem parseLevel_without_player_returns_level:
  "\<not> hasPlayerSymbol noPlayerRows \<and>
   parseLevel noPlayerRows =
     \<lparr>parsedGrid = [''#####'', ''#  .#'', ''#####''],
      initialPlayer = \<lparr>pt_x = 0, pt_y = 0\<rparr>,
      initialBoxes = [\<lparr>pt_x = 2, pt_y = 1\<rparr>],
      lvl_goals = [\<lparr>pt_x = 3, pt_y = 1\<rparr>]\<rparr>"
proof -
  have "\<not> hasPlayerSymbol noPlayerRows" by (simp add: noPlayerRows_def hasPlayerSymbol_def)
  moreover have "parseLevel noPlayerRows =
     \<lparr>parsedGrid = [''#####'', ''#  .#'', ''#####''],
      initialPlayer = \<lparr>pt_x = 0, pt_y = 0\<rparr>,
      initialBoxes = [\<lparr>pt_x = 2, pt_y = 1\<rparr>],
      lvl_goals = [\<lparr>pt_x = 3, pt_y = 1\<rparr>]\<rparr>"
    by code_simp
  ultimately show ?thesis by simp
qed

text \<open>
  Claim C7. For every level text and every cell of its rectangle: the parsed cell is
  void (\<^verbatim>\<open>x\<close>) exactly when the cell is a blank reachable from a blank on the outer
  boundary through orthogonally adjacent blanks; a blank that is not so reachable becomes
  floor (a space); and a cell written \<^verbatim>\<open>*\<close> becomes a goal cell (\<^verbatim>\<open>.\<close>) whose point is both
  among the boxes and among the goals.
\<close>

theorem parseLevel_void_exact:
  assumes "inRect rows x y"
  shows "(parsedGrid (parseLevel rows) ! nat y ! nat x = CHR ''x'') = exterior rows x y \<and>
         (blank rows x y \<and> \<not> exterior rows x y \<longrightarrow>
            parsedGrid (parseLevel rows) ! nat y ! nat x = CHR '' '') \<and>
         (rawCell rows x y = CHR ''*'' \<longrightarrow>
            parsedGrid (parseLevel rows) ! nat y ! nat x = CHR ''.'' \<and>
            \<lparr>pt_x = x, pt_y = y\<rparr> \<in> set (initialBoxes (parseLevel rows)) \<and>
            \<lparr>pt_x = x, pt_y = y\<rparr> \<in> set (lvl_goals (parseLevel rows)))"
proof -
  note c = parsedGrid_cell[OF assms]
  have "exterior rows x y \<Longrightarrow> rawCell rows x y = CHR '' ''"
    using exterior_blank[of rows x y] by (simp add: blank_def)
  then have 1: "(parsedGrid (parseLevel rows) ! nat y ! nat x = CHR ''x'') = exterior rows x y"
    by (auto simp add: c outChar_def)
  have 2: "blank rows x y \<and> \<not> exterior rows x y \<longrightarrow>
            parsedGrid (parseLevel rows) ! nat y ! nat x = CHR '' ''"
    by (simp add: c outChar_def blank_def)
  have 3: "rawCell rows x y = CHR ''*'' \<longrightarrow>
            parsedGrid (parseLevel rows) ! nat y ! nat x = CHR ''.'' \<and>
            \<lparr>pt_x = x, pt_y = y\<rparr> \<in> set (initialBoxes (parseLevel rows)) \<and>
            \<lparr>pt_x = x, pt_y = y\<rparr> \<in> set (lvl_goals (parseLevel rows))"
    using box_recorded[OF assms] goal_recorded[OF assms] by (simp add: c outChar_def)
  from 1 2 3 show ?thesis by blast
qed

text \<open>
  The check, on the text \<^verbatim>\<open>  ####\<close>, \<^verbatim>\<open>###  #\<close>, \<^verbatim>\<open>#@*  #\<close>, \<^verbatim>\<open># ####\<close>, \<^verbatim>\<open>###\<close>: the corner blank
  \<open>(0, 0)\<close> is exterior and becomes void, as does the padding at \<open>(5, 4)\<close>; the blank
  \<open>(1, 3)\<close> inside the walls is not exterior and stays floor; the cell \<open>(2, 2)\<close> is a goal
  with a box on it.
\<close>

theorem parseLevel_void_exact_witness:
  "inRect islandRows 0 0 \<and> exterior islandRows 0 0 \<and>
   parsedGrid (parseLevel islandRows) ! 0 ! 0 = CHR ''x'' \<and>
   inRect islandRows 5 4 \<and> parsedGrid (parseLevel islandRows) ! 4 ! 5 = CHR ''x'' \<and>
   inRect islandRows 1 3 \<and> blank islandRows 1 3 \<and> \<not> exterior islandRows 1 3 \<and>
   parsedGrid (parseLevel islandRows) ! 3 ! 1 = CHR '' '' \<and>
   inRect islandRows 2 2 \<and> rawCell islandRows 2 2 = CHR ''*'' \<and>
   parsedGrid (parseLevel islandRows) ! 2 ! 2 = CHR ''.'' \<and>
   \<lparr>pt_x = 2, pt_y = 2\<rparr> \<in> set (initialBoxes (parseLevel islandRows)) \<and>
   \<lparr>pt_x = 2, pt_y = 2\<rparr> \<in> set (lvl_goals (parseLevel islandRows))"
proof -
  have w: "levelWidth islandRows = 6" "length islandRows = 5"
    by (simp_all add: islandRows_def levelWidth_def)
  have r: "inRect islandRows 0 0" "inRect islandRows 5 4" "inRect islandRows 1 3" "inRect islandRows 2 2"
    by (simp_all add: inRect_def w)
  have g: "parsedGrid (parseLevel islandRows) ! 0 ! 0 = CHR ''x''"
    "parsedGrid (parseLevel islandRows) ! 4 ! 5 = CHR ''x''"
    "parsedGrid (parseLevel islandRows) ! 3 ! 1 = CHR '' ''"
    by code_simp+
  have c: "rawCell islandRows 1 3 = CHR '' ''" "rawCell islandRows 2 2 = CHR ''*''"
    by (simp_all add: rawCell_def islandRows_def)
  with r(3) have b: "blank islandRows 1 3" "rawCell islandRows 2 2 = CHR ''*''"
    by (simp_all add: blank_def)
  from parseLevel_void_exact[OF r(1)] parseLevel_void_exact[OF r(2)]
    parseLevel_void_exact[OF r(3)] parseLevel_void_exact[OF r(4)] g b r
  show ?thesis by simp
qed

text \<open>The two example levels used for the move checks are what the parser returns.\<close>

lemma roomLevel_parsed: "parseLevel [''######'', ''#@$. #'', ''######''] = roomLevel"
  by code_simp

lemma solvedLevel_parsed: "parseLevel [''#####'', ''#@ *#'', ''#####''] = solvedLevel"
  by code_simp

text \<open>The generator: draws stay in range, and placing cells keeps the walled frame.\<close>

lemma draw_range:
  assumes "0 < k"
  shows "0 \<le> draw rng pos k \<and> draw rng pos k < k"
proof -
  from assms have "rng pos mod nat k < nat k" by simp
  then show ?thesis by (simp add: draw_def zless_nat_eq_int_zless)
qed

lemma draw_inner:
  assumes "wellSized cfg"
  shows "inner cfg (2 + draw rng p (cfg_width cfg - 4)) (2 + draw rng q (cfg_height cfg - 4))"
proof -
  from assms have "0 < cfg_width cfg - 4" "0 < cfg_height cfg - 4" by (simp_all add: wellSized_def)
  from draw_range[OF this(1), of rng p] draw_range[OF this(2), of rng q]
  show ?thesis by (simp add: inner_def)
qed

lemma setCell_length: "length (setCell g a b c) = length g"
  by (simp add: setCell_def)

lemma setCell_row_length: "i < length g \<Longrightarrow> length (setCell g a b c ! i) = length (g ! i)"
  by (cases "i = nat b") (simp_all add: setCell_def)

lemma setCell_nth:
  assumes "0 \<le> a" "0 \<le> b" "0 \<le> x" "0 \<le> y" "y < int (length g)" "x < int (length (g ! nat y))"
  shows "setCell g a b c ! nat y ! nat x = (if x = a \<and> y = b then c else g ! nat y ! nat x)"
proof (cases "y = b")
  case True
  with assms show ?thesis by (auto simp add: setCell_def nth_list_update)
next
  case False
  with assms have "nat y \<noteq> nat b" by simp
  then show ?thesis using False by (simp add: setCell_def)
qed

lemma gridAt_setCell:
  assumes "0 \<le> a" "0 \<le> b"
  shows "gridAt (setCell g a b c) x y =
     (if gridAt g x y \<noteq> None \<and> x = a \<and> y = b then Some c else gridAt g x y)"
proof (cases "0 \<le> y \<and> y < int (length g)")
  case row: True
  then have r: "nat y < length g" by (simp add: nat_less_iff)
  note l = setCell_row_length[OF r, of a b c]
  show ?thesis
  proof (cases "0 \<le> x \<and> x < int (length (g ! nat y))")
    case True
    with row have old: "gridAt g x y = Some (g ! nat y ! nat x)" by (simp add: gridAt_def)
    from True row l have new: "gridAt (setCell g a b c) x y = Some (setCell g a b c ! nat y ! nat x)"
      by (simp add: gridAt_def setCell_length)
    from True row have "setCell g a b c ! nat y ! nat x = (if x = a \<and> y = b then c else g ! nat y ! nat x)"
      by (intro setCell_nth assms) simp_all
    with old new show ?thesis by simp
  next
    case False
    with row have old: "gridAt g x y = None" by (auto simp add: gridAt_def)
    from False row l have new: "gridAt (setCell g a b c) x y = None"
      by (auto simp add: gridAt_def setCell_length)
    from old new show ?thesis by simp
  qed
next
  case False
  then have "gridAt g x y = None" "gridAt (setCell g a b c) x y = None"
    by (auto simp add: gridAt_def setCell_length)
  then show ?thesis by simp
qed

lemma setCell_rows:
  assumes "\<forall>row \<in> set g. int (length row) = w"
  shows "\<forall>row \<in> set (setCell g a b c). int (length row) = w"
proof
  fix row assume "row \<in> set (setCell g a b c)"
  then obtain i where i: "i < length g" "row = setCell g a b c ! i"
    by (auto simp add: in_set_conv_nth setCell_length)
  with assms show "int (length row) = w" by (simp add: setCell_row_length)
qed

lemma gridOK_setCell:
  assumes "gridOK cfg g" "inner cfg a b"
  shows "gridOK cfg (setCell g a b c)"
proof -
  from assms(2) have nn: "0 \<le> a" "0 \<le> b" by (simp_all add: inner_def)
  from assms show ?thesis
    using setCell_rows[of g "cfg_width cfg" a b c]
    by (auto simp add: gridOK_def gridAt_setCell[OF nn] setCell_length)
qed

lemma gridOK_bordered:
  assumes "wellSized cfg"
  shows "gridOK cfg (borderedGrid cfg)"
  using assms
  by (auto simp add: gridOK_def borderedGrid_def gridAt_def wellSized_def onRing_def inner_def)

lemma scatterWalls_gridOK:
  "wellSized cfg \<Longrightarrow> gridOK cfg (fst s) \<Longrightarrow> gridOK cfg (fst (scatterWalls rng cfg n s))"
proof (induction n arbitrary: s)
  case 0 then show ?case by simp
next
  case (Suc n)
  obtain g pos where s: "s = (g, pos)" by (cases s)
  show ?case
    using Suc.prems s
    by (auto simp add: Let_def intro!: Suc.IH gridOK_setCell draw_inner)
qed

lemma placeGoals_inv:
  assumes "wellSized cfg" "gridOK cfg g" "goalsInner cfg gls" "length gls \<le> cfg_boxes cfg"
    and "placeGoals rng cfg n (g, gls, pos) = (g', gls', pos')"
  shows "gridOK cfg g' \<and> goalsInner cfg gls' \<and> length gls' \<le> cfg_boxes cfg"
  using assms
proof (induction n arbitrary: g gls pos)
  case 0 then show ?case by simp
next
  case (Suc n)
  show ?case
  proof (cases "length gls < cfg_boxes cfg")
    case False
    with Suc.prems show ?thesis by simp
  next
    case True
    let ?x = "2 + draw rng pos (cfg_width cfg - 4)" and ?y = "2 + draw rng (pos + 1) (cfg_height cfg - 4)"
    have inn: "inner cfg ?x ?y" by (rule draw_inner[OF Suc.prems(1)])
    show ?thesis
    proof (cases "gridAt g ?x ?y = Some CHR '' '' \<and> \<not> list_ex (atCell ?x ?y) gls \<and> freeSpaces g ?x ?y \<ge> 2")
      case ok: True
      with True Suc.prems(5)
      have r: "placeGoals rng cfg n (setCell g ?x ?y CHR ''.'', gls @ [\<lparr>pt_x = ?x, pt_y = ?y\<rparr>], pos + 2) = (g', gls', pos')"
        by (simp add: Let_def)
      show ?thesis
      proof (rule Suc.IH[OF Suc.prems(1) _ _ _ r])
        show "gridOK cfg (setCell g ?x ?y CHR ''.'')" by (rule gridOK_setCell[OF Suc.prems(2) inn])
        show "goalsInner cfg (gls @ [\<lparr>pt_x = ?x, pt_y = ?y\<rparr>])"
          using Suc.prems(3) inn by (simp add: goalsInner_def)
        show "length (gls @ [\<lparr>pt_x = ?x, pt_y = ?y\<rparr>]) \<le> cfg_boxes cfg" using True by simp
      qed
    next
      case no: False
      with True Suc.prems(5)
      have r: "placeGoals rng cfg n (g, gls, pos + 2) = (g', gls', pos')"
        by (auto simp add: Let_def)
      show ?thesis by (rule Suc.IH[OF Suc.prems(1,2,3,4) r])
    qed
  qed
qed

lemma placeWallsAndGoals_inv:
  assumes "wellSized cfg" and "placeWallsAndGoals rng cfg pos = (g, gls, pos')"
  shows "gridOK cfg g \<and> goalsInner cfg gls \<and> length gls \<le> cfg_boxes cfg"
proof -
  obtain g1 pos1 where s: "scatterWalls rng cfg (numWalls cfg) (borderedGrid cfg, pos) = (g1, pos1)"
    by (cases "scatterWalls rng cfg (numWalls cfg) (borderedGrid cfg, pos)")
  from scatterWalls_gridOK[OF assms(1), of "(borderedGrid cfg, pos)" rng "numWalls cfg"] s
    gridOK_bordered[OF assms(1)]
  have g1: "gridOK cfg g1" by simp
  from assms(2) s have "placeGoals rng cfg 100 (g1, [], pos1) = (g, gls, pos')"
    by (simp add: placeWallsAndGoals_def)
  from placeGoals_inv[OF assms(1) g1 _ _ this] show ?thesis by (simp add: goalsInner_def)
qed

text \<open>The pull loop and one visit of the repair pass keep the boxes inside and off the corner cell.\<close>

lemma corner_walls:
  assumes "wellSized cfg" "gridOK cfg g"
  shows "countWallNeighbors g 1 1 > 1"
proof -
  from assms have a: "gridAt g 0 0 = Some CHR ''#''" "gridAt g 1 0 = Some CHR ''#''"
    by (auto simp add: gridOK_def wellSized_def inner_def onRing_def)
  then show ?thesis
    by (simp add: countWallNeighbors_def around_def)
qed

lemma corner_free:
  assumes "wellSized cfg" "gridOK cfg g"
  shows "gridAt g 1 1 = Some CHR '' ''"
  using assms by (auto simp add: gridOK_def wellSized_def inner_def onRing_def)

lemma offCorner_update:
  assumes "offCorner bxs" "q \<noteq> \<lparr>pt_x = 1, pt_y = 1\<rparr>"
  shows "offCorner (bxs[i := q])"
  using assms set_update_subset_insert[of bxs i q] by (auto simp add: offCorner_def)

lemma pullStep_inv:
  assumes "wellSized cfg" "gridOK cfg g" "offCorner bxs"
    and "pullStep rng cfg g (bxs, p, k, pos) = (bxs', p', k', pos')"
  shows "length bxs' = length bxs \<and> offCorner bxs'"
proof (cases "bxs' = bxs")
  case True
  with assms(3) show ?thesis by simp
next
  case False
  let ?i = "rng pos mod length bxs"
  let ?d = "dirs ! (rng (pos + 1) mod length dirs)"
  let ?nx = "pt_x (bxs ! ?i) - pt_x ?d" and ?ny = "pt_y (bxs ! ?i) - pt_y ?d"
  from False assms(4) have upd: "bxs' = bxs[?i := \<lparr>pt_x = ?nx, pt_y = ?ny\<rparr>]"
    and few: "\<not> countWallNeighbors g ?nx ?ny > 1"
    by (auto simp add: pullStep_def Let_def split: if_splits)
  from few corner_walls[OF assms(1,2)] have "\<lparr>pt_x = ?nx, pt_y = ?ny\<rparr> \<noteq> \<lparr>pt_x = 1, pt_y = 1\<rparr>"
    by auto
  from offCorner_update[OF assms(3) this] upd show ?thesis by simp
qed

lemma pullLoop_inv:
  assumes "wellSized cfg" "gridOK cfg g" "offCorner bxs"
    and "pullLoop rng cfg g n (bxs, p, k, pos) = (bxs', p', k', pos')"
  shows "length bxs' = length bxs \<and> offCorner bxs'"
  using assms(3,4)
proof (induction n arbitrary: bxs p k pos)
  case 0
  then show ?case by simp
next
  case (Suc n)
  show ?case
  proof (cases "k < cfg_moves cfg")
    case False
    with Suc.prems show ?thesis by simp
  next
    case True
    obtain b1 p1 k1 pos1 where s: "pullStep rng cfg g (bxs, p, k, pos) = (b1, p1, k1, pos1)"
      by (cases "pullStep rng cfg g (bxs, p, k, pos)") auto
    from pullStep_inv[OF assms(1,2) Suc.prems(1) s] have i1: "length b1 = length bxs" "offCorner b1" by simp_all
    from Suc.prems(2) True s have "pullLoop rng cfg g n (b1, p1, k1, pos1) = (bxs', p', k', pos')" by simp
    from Suc.IH[OF i1(2) this] i1(1) show ?thesis by simp
  qed
qed

lemma tryRandom_Some:
  "tryRandom rng cfg ok n pos = (Some q, pos') \<Longrightarrow> ok (pt_x q) (pt_y q)"
  by (induction n arbitrary: pos) (auto simp add: Let_def split: if_splits)

lemma find_Some_holds: "find P xs = Some c \<Longrightarrow> P c"
  by (induction xs) (auto split: if_splits)

lemma validTarget_corner:
  assumes "wellSized cfg" "gridOK cfg g"
  shows "\<not> validTarget g gls bxs p i 1 1"
  using corner_walls[OF assms] by (simp add: validTarget_def)

lemma repairBox_unfold:
  "repairBox rng cfg g gls p i (bxs, v, pos) =
     (if list_ex (atCell (pt_x (bxs ! i)) (pt_y (bxs ! i))) gls \<or>
         countWallNeighbors g (pt_x (bxs ! i)) (pt_y (bxs ! i)) > 1
      then (case tryRandom rng cfg (validTarget g gls bxs p i) 50 pos of
              (Some q, pos') \<Rightarrow> (bxs[i := q], False, pos')
            | (None, pos') \<Rightarrow>
                (case find (\<lambda>c. validTarget g gls bxs p i (fst c) (snd c)) (scanCells cfg) of
                   Some c \<Rightarrow> (bxs[i := \<lparr>pt_x = fst c, pt_y = snd c\<rparr>], False, pos')
                 | None \<Rightarrow> (bxs, False, pos')))
      else (bxs, v, pos))"
  unfolding repairBox_def Let_def by simp

text \<open>What one visit of the repair pass can do to the box at index \<open>i\<close>.\<close>

lemma repairBox_cases:
  assumes "repairBox rng cfg g gls p i (bxs, v, pos) = (bxs', v', pos')"
  obtains (valid) "bxs ! i \<notin> set gls" "bxs' = bxs" "v' = v" "pos' = pos"
  | (moved) q where "\<not> v'" "bxs' = bxs[i := q]" "validTarget g gls bxs p i (pt_x q) (pt_y q)"
  | (stuck) "\<not> v'" "bxs' = bxs"
proof (cases "list_ex (atCell (pt_x (bxs ! i)) (pt_y (bxs ! i))) gls \<or>
              countWallNeighbors g (pt_x (bxs ! i)) (pt_y (bxs ! i)) > 1")
  case False
  then have "bxs ! i \<notin> set gls" by (simp add: atCell_mem Point_eta)
  moreover from False have "repairBox rng cfg g gls p i (bxs, v, pos) = (bxs, v, pos)"
    by (simp add: repairBox_unfold)
  ultimately show ?thesis using assms valid by simp
next
  case inv: True
  obtain r pos1 where t: "tryRandom rng cfg (validTarget g gls bxs p i) 50 pos = (r, pos1)"
    by (cases "tryRandom rng cfg (validTarget g gls bxs p i) 50 pos")
  show ?thesis
  proof (cases r)
    case (Some q)
    with t tryRandom_Some[of rng cfg "validTarget g gls bxs p i" 50 pos q pos1]
    have "validTarget g gls bxs p i (pt_x q) (pt_y q)" by simp
    moreover from inv t Some assms have "\<not> v'" "bxs' = bxs[i := q]"
      by (simp_all add: repairBox_unfold)
    ultimately show ?thesis using moved by blast
  next
    case None
    show ?thesis
    proof (cases "find (\<lambda>c. validTarget g gls bxs p i (fst c) (snd c)) (scanCells cfg)")
      case n2: None
      with inv t None assms have "\<not> v'" "bxs' = bxs" by (simp_all add: repairBox_unfold)
      then show ?thesis using stuck by blast
    next
      case (Some c)
      from find_Some_holds[OF Some] have "validTarget g gls bxs p i (fst c) (snd c)" .
      moreover from inv t None Some assms have "\<not> v'" "bxs' = bxs[i := \<lparr>pt_x = fst c, pt_y = snd c\<rparr>]"
        by (simp_all add: repairBox_unfold)
      ultimately show ?thesis using moved[of "\<lparr>pt_x = fst c, pt_y = snd c\<rparr>"] by simp
    qed
  qed
qed

lemma repairBox_inv:
  assumes "wellSized cfg" "gridOK cfg g" "offCorner bxs"
    and "repairBox rng cfg g gls p i (bxs, v, pos) = (bxs', v', pos')"
  shows "length bxs' = length bxs \<and> offCorner bxs'"
  using assms(4)
proof (cases rule: repairBox_cases)
  case valid
  with assms(3) show ?thesis by simp
next
  case (moved q)
  from moved(3) validTarget_corner[OF assms(1,2), of gls bxs p i]
  have "q \<noteq> \<lparr>pt_x = 1, pt_y = 1\<rparr>" by auto
  from offCorner_update[OF assms(3) this] moved(2) show ?thesis by simp
next
  case stuck
  with assms(3) show ?thesis by simp
qed

text \<open>A round of the repair pass, visit by visit.\<close>

lemma repairVisits_inv:
  assumes "wellSized cfg" "gridOK cfg g" "offCorner bxs"
    and "fold (repairBox rng cfg g gls p) [0..<k] (bxs, v, pos) = (bxs', v', pos')"
  shows "length bxs' = length bxs \<and> offCorner bxs'"
  using assms(4)
proof (induction k arbitrary: bxs' v' pos')
  case 0
  with assms(3) show ?case by simp
next
  case (Suc k)
  obtain b1 v1 pos1 where m: "fold (repairBox rng cfg g gls p) [0..<k] (bxs, v, pos) = (b1, v1, pos1)"
    by (cases "fold (repairBox rng cfg g gls p) [0..<k] (bxs, v, pos)") auto
  from Suc.IH[OF m] have i1: "length b1 = length bxs" "offCorner b1" by simp_all
  from Suc.prems m have "repairBox rng cfg g gls p k (b1, v1, pos1) = (bxs', v', pos')" by simp
  from repairBox_inv[OF assms(1,2) i1(2) this] i1(1) show ?case by simp
qed

lemma repairVisits_valid:
  assumes "fold (repairBox rng cfg g gls p) [0..<k] (bxs, True, pos) = (bxs', v', pos')" and "v'"
  shows "bxs' = bxs \<and> (\<forall>i<k. bxs ! i \<notin> set gls)"
  using assms
proof (induction k arbitrary: bxs' v' pos')
  case 0
  then show ?case by simp
next
  case (Suc k)
  obtain b1 v1 pos1 where m: "fold (repairBox rng cfg g gls p) [0..<k] (bxs, True, pos) = (b1, v1, pos1)"
    by (cases "fold (repairBox rng cfg g gls p) [0..<k] (bxs, True, pos)") auto
  from Suc.prems(1) m have r: "repairBox rng cfg g gls p k (b1, v1, pos1) = (bxs', v', pos')" by simp
  from r show ?case
  proof (cases rule: repairBox_cases)
    case valid
    with Suc.prems(2) have "v1" by simp
    from Suc.IH[OF m this] valid show ?thesis by (auto simp add: less_Suc_eq)
  next
    case (moved q)
    with Suc.prems(2) show ?thesis by simp
  next
    case stuck
    with Suc.prems(2) show ?thesis by simp
  qed
qed

lemma repairRound_inv:
  assumes "wellSized cfg" "gridOK cfg g" "offCorner bxs"
    and "repairRound rng cfg g gls p (bxs, pos) = (bxs', v', pos')"
  shows "length bxs' = length bxs \<and> offCorner bxs' \<and> (v' \<longrightarrow> (\<forall>b \<in> set bxs'. b \<notin> set gls))"
proof -
  from assms(4) have f: "fold (repairBox rng cfg g gls p) [0..<length bxs] (bxs, True, pos) = (bxs', v', pos')"
    by (simp add: repairRound_def)
  from repairVisits_inv[OF assms(1,2,3) f] have a: "length bxs' = length bxs" "offCorner bxs'" by simp_all
  have "v' \<longrightarrow> (\<forall>b \<in> set bxs'. b \<notin> set gls)"
  proof
    assume "v'"
    from repairVisits_valid[OF f this] show "\<forall>b \<in> set bxs'. b \<notin> set gls"
      by (metis in_set_conv_nth)
  qed
  with a show ?thesis by simp
qed

lemma repairLoop_inv:
  assumes "wellSized cfg" "gridOK cfg g" "offCorner bxs"
    and "repairLoop rng cfg g gls p n (bxs, v, pos) = (bxs', v', pos')"
    and "v \<longrightarrow> (\<forall>b \<in> set bxs. b \<notin> set gls)"
  shows "length bxs' = length bxs \<and> offCorner bxs' \<and> (v' \<longrightarrow> (\<forall>b \<in> set bxs'. b \<notin> set gls))"
  using assms(3,4,5)
proof (induction n arbitrary: bxs v pos)
  case 0
  then show ?case by simp
next
  case (Suc n)
  show ?case
  proof (cases v)
    case True
    with Suc.prems show ?thesis by simp
  next
    case False
    obtain b1 v1 pos1 where s: "repairRound rng cfg g gls p (bxs, pos) = (b1, v1, pos1)"
      by (cases "repairRound rng cfg g gls p (bxs, pos)") auto
    from repairRound_inv[OF assms(1,2) Suc.prems(1) s]
    have i1: "length b1 = length bxs" "offCorner b1" "v1 \<longrightarrow> (\<forall>b \<in> set b1. b \<notin> set gls)" by simp_all
    from Suc.prems(2) False s have "repairLoop rng cfg g gls p n (b1, v1, pos1) = (bxs', v', pos')" by simp
    from Suc.IH[OF i1(2) this i1(3)] i1(1) show ?thesis by simp
  qed
qed

lemma scanCells_head:
  assumes "wellSized cfg"
  shows "\<exists>rest. scanCells cfg = (1, 1) # rest"
proof -
  from assms have "1 \<le> cfg_width cfg - 2" "1 \<le> cfg_height cfg - 2" by (simp_all add: wellSized_def)
  from upto_rec1[OF this(1)] upto_rec1[OF this(2)] show ?thesis
    by (simp add: scanCells_def)
qed

lemma relocatePlayer_off_goal:
  assumes "wellSized cfg" "gridOK cfg g" "goalsInner cfg gls" "offCorner bxs"
  shows "relocatePlayer cfg g gls bxs p \<notin> set gls"
proof (cases "list_ex (atCell (pt_x p) (pt_y p)) gls")
  case False
  then have "p \<notin> set gls" by (simp add: atCell_mem Point_eta)
  with False show ?thesis by (simp add: relocatePlayer_def)
next
  case True
  from scanCells_head[OF assms(1)] obtain rest where h: "scanCells cfg = (1, 1) # rest" by blast
  from assms(3) have ng: "\<lparr>pt_x = 1, pt_y = 1\<rparr> \<notin> set gls"
    by (auto simp add: goalsInner_def inner_def)
  with corner_free[OF assms(1,2)] assms(4) True h show ?thesis
    by (simp add: relocatePlayer_def atCell_mem offCorner_def)
qed

lemma choose_offCorner:
  assumes "goalsInner cfg gls"
  shows "offCorner gls"
  using assms by (auto simp add: goalsInner_def inner_def offCorner_def)

lemma finishLevel_props:
  assumes "wellSized cfg" "gridOK cfg g" "goalsInner cfg gls"
    and "finishLevel rng cfg g gls pos = (lvl, valid)"
  shows "parsedGrid lvl = g \<and> lvl_goals lvl = gls \<and>
         length (initialBoxes lvl) = length gls \<and>
         initialPlayer lvl \<notin> set gls \<and>
         (valid \<longrightarrow> (\<forall>b \<in> set (initialBoxes lvl). b \<notin> set gls))"
proof -
  let ?p0 = "choosePlayer cfg g gls [1..cfg_height cfg - 2] \<lparr>pt_x = 2, pt_y = 2\<rparr>"
  obtain b1 p1 k1 pos1 where pl: "pullLoop rng cfg g (cfg_moves cfg * 5) (gls, ?p0, 0, pos) = (b1, p1, k1, pos1)"
    by (cases "pullLoop rng cfg g (cfg_moves cfg * 5) (gls, ?p0, 0, pos)") auto
  obtain b2 v2 pos2 where rl: "repairLoop rng cfg g gls p1 500 (b1, False, pos1) = (b2, v2, pos2)"
    by (cases "repairLoop rng cfg g gls p1 500 (b1, False, pos1)") auto
  from pullLoop_inv[OF assms(1,2) choose_offCorner[OF assms(3)] pl]
  have i1: "length b1 = length gls" "offCorner b1" by simp_all
  from repairLoop_inv[OF assms(1,2) i1(2) rl] i1(1)
  have i2: "length b2 = length gls" "offCorner b2" "v2 \<longrightarrow> (\<forall>b \<in> set b2. b \<notin> set gls)" by simp_all
  from assms(4) pl rl have lvl: "lvl = \<lparr>parsedGrid = g, initialPlayer = relocatePlayer cfg g gls b2 p1,
                    initialBoxes = b2, lvl_goals = gls\<rparr>" "valid = v2"
    by (simp_all add: finishLevel_def Let_def)
  from relocatePlayer_off_goal[OF assms(1,2,3) i2(2), of p1] i2 lvl show ?thesis by simp
qed

lemma configs_wellSized: "wellSized (configs d)"
  by (cases d) (simp_all add: wellSized_def)

lemma generateTraced_props:
  assumes "generateTraced rng d pos = Some r"
  shows "gridOK (configs d) (parsedGrid (fst r)) \<and>
         length (initialBoxes (fst r)) = cfg_boxes (configs d) \<and>
         initialPlayer (fst r) \<notin> set (lvl_goals (fst r)) \<and>
         (snd r \<longrightarrow> (\<forall>b \<in> set (initialBoxes (fst r)). b \<notin> set (lvl_goals (fst r))))"
proof (rule generateTraced.raw_induct[where P = "\<lambda>rng d pos r.
         gridOK (configs d) (parsedGrid (fst r)) \<and>
         length (initialBoxes (fst r)) = cfg_boxes (configs d) \<and>
         initialPlayer (fst r) \<notin> set (lvl_goals (fst r)) \<and>
         (snd r \<longrightarrow> (\<forall>b \<in> set (initialBoxes (fst r)). b \<notin> set (lvl_goals (fst r))))", OF _ assms])
  fix gen :: "(nat \<Rightarrow> nat) \<Rightarrow> Difficulty \<Rightarrow> nat \<Rightarrow> (ParsedLevel \<times> bool) option"
    and rng d pos r
  assume ih: "\<And>rng d pos r. gen rng d pos = Some r \<Longrightarrow>
         gridOK (configs d) (parsedGrid (fst r)) \<and>
         length (initialBoxes (fst r)) = cfg_boxes (configs d) \<and>
         initialPlayer (fst r) \<notin> set (lvl_goals (fst r)) \<and>
         (snd r \<longrightarrow> (\<forall>b \<in> set (initialBoxes (fst r)). b \<notin> set (lvl_goals (fst r))))"
    and body: "(case placeWallsAndGoals rng (configs d) pos of
                  (g, gls, pos') \<Rightarrow>
                    if length gls < cfg_boxes (configs d) then gen rng d pos'
                    else Some (finishLevel rng (configs d) g gls pos')) = Some r"
  obtain g gls pos' where w: "placeWallsAndGoals rng (configs d) pos = (g, gls, pos')"
    by (cases "placeWallsAndGoals rng (configs d) pos") auto
  note inv = placeWallsAndGoals_inv[OF configs_wellSized w]
  show "gridOK (configs d) (parsedGrid (fst r)) \<and>
         length (initialBoxes (fst r)) = cfg_boxes (configs d) \<and>
         initialPlayer (fst r) \<notin> set (lvl_goals (fst r)) \<and>
         (snd r \<longrightarrow> (\<forall>b \<in> set (initialBoxes (fst r)). b \<notin> set (lvl_goals (fst r))))"
  proof (cases "length gls < cfg_boxes (configs d)")
    case True
    with body w have "gen rng d pos' = Some r" by simp
    from ih[OF this] show ?thesis .
  next
    case False
    with body w have f: "finishLevel rng (configs d) g gls pos' = (fst r, snd r)" by simp
    from inv False have len: "length gls = cfg_boxes (configs d)" by simp
    from finishLevel_props[OF configs_wellSized _ _ f] inv len show ?thesis by simp
  qed
qed

text \<open>Loops whose every round is known in advance.\<close>

lemma pullLoop_unroll:
  "k < cfg_moves cfg \<Longrightarrow> 0 < n \<Longrightarrow>
   pullLoop rng cfg g n (bxs, p, k, pos) = pullLoop rng cfg g (n - 1) (pullStep rng cfg g (bxs, p, k, pos))"
  by (cases n) simp_all

lemma pullLoop_stuck:
  assumes "\<And>pos. p0 \<le> pos \<Longrightarrow> pullStep rng cfg g (bxs, p, k, pos) = (bxs, p, k, pos + 2)"
    and "k < cfg_moves cfg" and "p0 \<le> pos"
  shows "pullLoop rng cfg g n (bxs, p, k, pos) = (bxs, p, k, pos + 2 * n)"
  using assms(3)
proof (induction n arbitrary: pos)
  case 0
  then show ?case by simp
next
  case (Suc n)
  from Suc.prems have "p0 \<le> pos + 2" by simp
  from Suc.IH[OF this] assms(1)[OF Suc.prems] assms(2) show ?case by simp
qed

lemma tryRandom_stuck:
  assumes "\<And>pos. p0 \<le> pos \<Longrightarrow> rng pos = 0" and "\<not> ok 1 1" and "p0 \<le> pos"
  shows "tryRandom rng cfg ok n pos = (None, pos + 2 * n)"
  using assms(3)
proof (induction n arbitrary: pos)
  case 0
  then show ?case by simp
next
  case (Suc n)
  from Suc.prems have a: "rng pos = 0" "rng (pos + 1) = 0" "p0 \<le> pos + 2"
    by (simp_all add: assms(1))
  from Suc.IH[OF a(3)] a(1,2) assms(2) show ?case by (simp add: draw_def Let_def)
qed

lemma repairLoop_stuck:
  assumes "\<And>pos. p0 \<le> pos \<Longrightarrow> repairRound rng cfg g gls p (bxs, pos) = (bxs, False, pos + c)"
    and "p0 \<le> pos"
  shows "repairLoop rng cfg g gls p n (bxs, False, pos) = (bxs, False, pos + c * n)"
  using assms(2)
proof (induction n arbitrary: pos)
  case 0
  then show ?case by simp
next
  case (Suc n)
  from Suc.prems have "p0 \<le> pos + c" by simp
  from Suc.IH[OF this] assms(1)[OF Suc.prems] show ?case by (simp add: algebra_simps)
qed

lemma repairLoop_done: "repairLoop rng cfg g gls p n (bxs, True, pos) = (bxs, True, pos)"
  by (cases n) simp_all

lemma repairLoop_unroll:
  "0 < n \<Longrightarrow> repairLoop rng cfg g gls p n (bxs, False, pos) =
     repairLoop rng cfg g gls p (n - 1) (repairRound rng cfg g gls p (bxs, pos))"
  by (cases n) simp_all

lemma repairRound_single:
  "repairRound rng cfg g gls p ([b], pos) = repairBox rng cfg g gls p 0 ([b], True, pos)"
  by (simp add: repairRound_def)

lemma easy_cfg:
  "cfg_width (configs Easy) = 8" "cfg_height (configs Easy) = 7"
  "cfg_boxes (configs Easy) = 1" "cfg_moves (configs Easy) = 30"
  by simp_all

text \<open>The run on the draws that put a row of walls under the goal.\<close>

lemma wallRow_tail: "12 \<le> pos \<Longrightarrow> wallRowDraws pos = 0"
  by (simp add: wallRowDraws_def drawsFrom_def)

lemma wallRow_placed:
  "placeWallsAndGoals wallRowDraws (configs Easy) 0 = (wallRowGrid, [\<lparr>pt_x = 2, pt_y = 2\<rparr>], 12)"
  by code_simp

lemma wallRow_player:
  "choosePlayer (configs Easy) wallRowGrid [\<lparr>pt_x = 2, pt_y = 2\<rparr>] [1..5]
     \<lparr>pt_x = 2, pt_y = 2\<rparr> = \<lparr>pt_x = 1, pt_y = 1\<rparr>"
  by code_simp

lemma wallRow_facts:
  "gridAt wallRowGrid 1 2 = Some CHR '' ''"
  "gridAt wallRowGrid 3 2 = Some CHR '' ''"
  "countWallNeighbors wallRowGrid 1 2 = 4"
  "list_ex (atCell 2 2) [\<lparr>pt_x = 2, pt_y = 2\<rparr>]"
  "\<not> validTarget wallRowGrid [\<lparr>pt_x = 2, pt_y = 2\<rparr>] [\<lparr>pt_x = 2, pt_y = 2\<rparr>] \<lparr>pt_x = 1, pt_y = 1\<rparr> 0 1 1"
  "find (\<lambda>c. validTarget wallRowGrid [\<lparr>pt_x = 2, pt_y = 2\<rparr>] [\<lparr>pt_x = 2, pt_y = 2\<rparr>]
                 \<lparr>pt_x = 1, pt_y = 1\<rparr> 0 (fst c) (snd c)) (scanCells (configs Easy)) = None"
  "relocatePlayer (configs Easy) wallRowGrid [\<lparr>pt_x = 2, pt_y = 2\<rparr>] [\<lparr>pt_x = 2, pt_y = 2\<rparr>]
     \<lparr>pt_x = 1, pt_y = 1\<rparr> = \<lparr>pt_x = 1, pt_y = 1\<rparr>"
  by code_simp+

lemma wallRow_pull:
  assumes "12 \<le> pos"
  shows "pullStep wallRowDraws (configs Easy) wallRowGrid
           ([\<lparr>pt_x = 2, pt_y = 2\<rparr>], \<lparr>pt_x = 1, pt_y = 1\<rparr>, k, pos) =
         ([\<lparr>pt_x = 2, pt_y = 2\<rparr>], \<lparr>pt_x = 1, pt_y = 1\<rparr>, k, pos + 2)"
  using assms
  by (simp add: pullStep_def Let_def wallRow_tail dirs_def wallRow_facts otherBoxAt_def atCell_def easy_cfg
      del: configs.simps)

lemma wallRow_round:
  assumes "12 \<le> pos"
  shows "repairRound wallRowDraws (configs Easy) wallRowGrid [\<lparr>pt_x = 2, pt_y = 2\<rparr>] \<lparr>pt_x = 1, pt_y = 1\<rparr>
           ([\<lparr>pt_x = 2, pt_y = 2\<rparr>], pos) =
         ([\<lparr>pt_x = 2, pt_y = 2\<rparr>], False, pos + 100)"
proof -
  have t: "tryRandom wallRowDraws (configs Easy)
             (validTarget wallRowGrid [\<lparr>pt_x = 2, pt_y = 2\<rparr>] [\<lparr>pt_x = 2, pt_y = 2\<rparr>] \<lparr>pt_x = 1, pt_y = 1\<rparr> 0)
             50 pos = (None, pos + 2 * 50)"
    by (rule tryRandom_stuck[where ?p0.0 = 12]) (simp_all add: wallRow_tail wallRow_facts assms)
  show ?thesis
    by (simp add: repairRound_single repairBox_unfold wallRow_facts t atCell_def del: configs.simps)
qed

lemma wallRow_finish:
  "finishLevel wallRowDraws (configs Easy) wallRowGrid [\<lparr>pt_x = 2, pt_y = 2\<rparr>] 12 =
     (\<lparr>parsedGrid = wallRowGrid, initialPlayer = \<lparr>pt_x = 1, pt_y = 1\<rparr>,
       initialBoxes = [\<lparr>pt_x = 2, pt_y = 2\<rparr>], lvl_goals = [\<lparr>pt_x = 2, pt_y = 2\<rparr>]\<rparr>, False)"
proof -
  have "pullLoop wallRowDraws (configs Easy) wallRowGrid 150
              ([\<lparr>pt_x = 2, pt_y = 2\<rparr>], \<lparr>pt_x = 1, pt_y = 1\<rparr>, 0, 12) =
            ([\<lparr>pt_x = 2, pt_y = 2\<rparr>], \<lparr>pt_x = 1, pt_y = 1\<rparr>, 0, 12 + 2 * 150)"
    by (rule pullLoop_stuck[where ?p0.0 = 12]) (simp_all add: wallRow_pull easy_cfg del: configs.simps)
  then have pl: "pullLoop wallRowDraws (configs Easy) wallRowGrid 150
              ([\<lparr>pt_x = 2, pt_y = 2\<rparr>], \<lparr>pt_x = 1, pt_y = 1\<rparr>, 0, 12) =
            ([\<lparr>pt_x = 2, pt_y = 2\<rparr>], \<lparr>pt_x = 1, pt_y = 1\<rparr>, 0, 312)"
    by simp
  have "repairLoop wallRowDraws (configs Easy) wallRowGrid [\<lparr>pt_x = 2, pt_y = 2\<rparr>] \<lparr>pt_x = 1, pt_y = 1\<rparr> 500
              ([\<lparr>pt_x = 2, pt_y = 2\<rparr>], False, 312) =
            ([\<lparr>pt_x = 2, pt_y = 2\<rparr>], False, 312 + 100 * 500)"
    by (rule repairLoop_stuck[where ?p0.0 = 12]) (simp_all add: wallRow_round del: configs.simps)
  then have rl: "repairLoop wallRowDraws (configs Easy) wallRowGrid [\<lparr>pt_x = 2, pt_y = 2\<rparr>] \<lparr>pt_x = 1, pt_y = 1\<rparr> 500
              ([\<lparr>pt_x = 2, pt_y = 2\<rparr>], False, 312) =
            ([\<lparr>pt_x = 2, pt_y = 2\<rparr>], False, 50312)"
    by simp
  show ?thesis
    by (simp add: finishLevel_def Let_def wallRow_player easy_cfg pl rl wallRow_facts del: configs.simps)
qed

lemma wallRow_run:
  "generateTraced wallRowDraws Easy 0 =
     Some (\<lparr>parsedGrid = wallRowGrid, initialPlayer = \<lparr>pt_x = 1, pt_y = 1\<rparr>,
            initialBoxes = [\<lparr>pt_x = 2, pt_y = 2\<rparr>], lvl_goals = [\<lparr>pt_x = 2, pt_y = 2\<rparr>]\<rparr>, False)"
  by (subst generateTraced.simps) (simp add: wallRow_placed wallRow_finish easy_cfg del: configs.simps)

text \<open>The run on the draws that leave room to pull the box once.\<close>

lemma easy_tail: "12 \<le> pos \<Longrightarrow> easyDraws pos = 0"
  by (simp add: easyDraws_def drawsFrom_def)

lemma easy_placed:
  "placeWallsAndGoals easyDraws (configs Easy) 0 = (easyGrid, [\<lparr>pt_x = 3, pt_y = 3\<rparr>], 12)"
  by code_simp

lemma easy_player:
  "choosePlayer (configs Easy) easyGrid [\<lparr>pt_x = 3, pt_y = 3\<rparr>] [1..5]
     \<lparr>pt_x = 2, pt_y = 2\<rparr> = \<lparr>pt_x = 1, pt_y = 1\<rparr>"
  by code_simp

lemma easy_first_pull:
  "pullStep easyDraws (configs Easy) easyGrid ([\<lparr>pt_x = 3, pt_y = 3\<rparr>], \<lparr>pt_x = 1, pt_y = 1\<rparr>, 0, 12) =
     ([\<lparr>pt_x = 2, pt_y = 3\<rparr>], \<lparr>pt_x = 4, pt_y = 3\<rparr>, 1, 14)"
  by code_simp

lemma easy_facts:
  "gridAt easyGrid 1 3 = Some CHR '' ''"
  "gridAt easyGrid 3 3 = Some CHR ''.''"
  "countWallNeighbors easyGrid 1 3 = 4"
  "countWallNeighbors easyGrid 2 3 = 1"
  "\<not> list_ex (atCell 2 3) [\<lparr>pt_x = 3, pt_y = 3\<rparr>]"
  "relocatePlayer (configs Easy) easyGrid [\<lparr>pt_x = 3, pt_y = 3\<rparr>] [\<lparr>pt_x = 2, pt_y = 3\<rparr>]
     \<lparr>pt_x = 4, pt_y = 3\<rparr> = \<lparr>pt_x = 4, pt_y = 3\<rparr>"
  by code_simp+

lemma easy_pull:
  assumes "12 \<le> pos"
  shows "pullStep easyDraws (configs Easy) easyGrid
           ([\<lparr>pt_x = 2, pt_y = 3\<rparr>], \<lparr>pt_x = 4, pt_y = 3\<rparr>, k, pos) =
         ([\<lparr>pt_x = 2, pt_y = 3\<rparr>], \<lparr>pt_x = 4, pt_y = 3\<rparr>, k, pos + 2)"
  using assms
  by (simp add: pullStep_def Let_def easy_tail dirs_def easy_facts otherBoxAt_def atCell_def easy_cfg
      del: configs.simps)

lemma easy_round:
  "repairRound easyDraws (configs Easy) easyGrid [\<lparr>pt_x = 3, pt_y = 3\<rparr>] \<lparr>pt_x = 4, pt_y = 3\<rparr>
           ([\<lparr>pt_x = 2, pt_y = 3\<rparr>], pos) =
         ([\<lparr>pt_x = 2, pt_y = 3\<rparr>], True, pos)"
  by (simp add: repairRound_single repairBox_unfold easy_facts atCell_def del: configs.simps)

lemma easy_finish:
  "finishLevel easyDraws (configs Easy) easyGrid [\<lparr>pt_x = 3, pt_y = 3\<rparr>] 12 =
     (\<lparr>parsedGrid = easyGrid, initialPlayer = \<lparr>pt_x = 4, pt_y = 3\<rparr>,
       initialBoxes = [\<lparr>pt_x = 2, pt_y = 3\<rparr>], lvl_goals = [\<lparr>pt_x = 3, pt_y = 3\<rparr>]\<rparr>, True)"
proof -
  have "pullLoop easyDraws (configs Easy) easyGrid 149
              ([\<lparr>pt_x = 2, pt_y = 3\<rparr>], \<lparr>pt_x = 4, pt_y = 3\<rparr>, 1, 14) =
            ([\<lparr>pt_x = 2, pt_y = 3\<rparr>], \<lparr>pt_x = 4, pt_y = 3\<rparr>, 1, 14 + 2 * 149)"
    by (rule pullLoop_stuck[where ?p0.0 = 12]) (simp_all add: easy_pull easy_cfg del: configs.simps)
  moreover have "pullLoop easyDraws (configs Easy) easyGrid 150
              ([\<lparr>pt_x = 3, pt_y = 3\<rparr>], \<lparr>pt_x = 1, pt_y = 1\<rparr>, 0, 12) =
            pullLoop easyDraws (configs Easy) easyGrid (150 - 1)
              (pullStep easyDraws (configs Easy) easyGrid ([\<lparr>pt_x = 3, pt_y = 3\<rparr>], \<lparr>pt_x = 1, pt_y = 1\<rparr>, 0, 12))"
    by (rule pullLoop_unroll) (simp_all add: easy_cfg del: configs.simps)
  ultimately have pl: "pullLoop easyDraws (configs Easy) easyGrid 150
              ([\<lparr>pt_x = 3, pt_y = 3\<rparr>], \<lparr>pt_x = 1, pt_y = 1\<rparr>, 0, 12) =
            ([\<lparr>pt_x = 2, pt_y = 3\<rparr>], \<lparr>pt_x = 4, pt_y = 3\<rparr>, 1, 312)"
    by (simp add: easy_first_pull del: configs.simps)
  have "repairLoop easyDraws (configs Easy) easyGrid [\<lparr>pt_x = 3, pt_y = 3\<rparr>] \<lparr>pt_x = 4, pt_y = 3\<rparr> 500
              ([\<lparr>pt_x = 2, pt_y = 3\<rparr>], False, 312) =
        repairLoop easyDraws (configs Easy) easyGrid [\<lparr>pt_x = 3, pt_y = 3\<rparr>] \<lparr>pt_x = 4, pt_y = 3\<rparr> (500 - 1)
              (repairRound easyDraws (configs Easy) easyGrid [\<lparr>pt_x = 3, pt_y = 3\<rparr>] \<lparr>pt_x = 4, pt_y = 3\<rparr>
                 ([\<lparr>pt_x = 2, pt_y = 3\<rparr>], 312))"
    by (rule repairLoop_unroll) simp
  then have rl: "repairLoop easyDraws (configs Easy) easyGrid [\<lparr>pt_x = 3, pt_y = 3\<rparr>] \<lparr>pt_x = 4, pt_y = 3\<rparr> 500
              ([\<lparr>pt_x = 2, pt_y = 3\<rparr>], False, 312) =
            ([\<lparr>pt_x = 2, pt_y = 3\<rparr>], True, 312)"
    by (simp add: easy_round repairLoop_done del: configs.simps)
  show ?thesis
    by (simp add: finishLevel_def Let_def easy_player easy_cfg pl rl easy_facts del: configs.simps)
qed

lemma easy_run:
  "generateTraced easyDraws Easy 0 =
     Some (\<lparr>parsedGrid = easyGrid, initialPlayer = \<lparr>pt_x = 4, pt_y = 3\<rparr>,
            initialBoxes = [\<lparr>pt_x = 2, pt_y = 3\<rparr>], lvl_goals = [\<lparr>pt_x = 3, pt_y = 3\<rparr>]\<rparr>, True)"
  by (subst generateTraced.simps) (simp add: easy_placed easy_finish easy_cfg del: configs.simps)

lemma ring_not_inner: "onRing cfg x y \<Longrightarrow> \<not> inner cfg x y"
  by (auto simp add: onRing_def inner_def)

lemma gridOK_ring:
  assumes "gridOK cfg g" "onRing cfg x y"
  shows "gridAt g x y = Some CHR ''#''"
  using assms ring_not_inner[OF assms(2)]
  by (auto simp add: gridOK_def onRing_def)

text \<open>
  What holds of every level the generator returns, for every difficulty tier, every
  sequence of random draws and every position in it: the level has as many boxes as the
  tier configures, the player does not start on a goal, the grid has the tier's height
  and width, and every cell of the outer ring is a wall. No box is on a goal when the
  repair pass ended with \<^verbatim>\<open>allBoxesValid\<close> true.
\<close>

lemma generated_level_properties:
  assumes "generateRandomLevel rng d pos = Some lvl"
  shows "length (initialBoxes lvl) = cfg_boxes (configs d) \<and>
         initialPlayer lvl \<notin> set (lvl_goals lvl) \<and>
         int (length (parsedGrid lvl)) = cfg_height (configs d) \<and>
         (\<forall>row \<in> set (parsedGrid lvl). int (length row) = cfg_width (configs d)) \<and>
         (\<forall>x y. onRing (configs d) x y \<longrightarrow> gridAt (parsedGrid lvl) x y = Some CHR ''#'') \<and>
         (\<exists>allBoxesValid. generateTraced rng d pos = Some (lvl, allBoxesValid) \<and>
            (allBoxesValid \<longrightarrow> (\<forall>b \<in> set (initialBoxes lvl). b \<notin> set (lvl_goals lvl))))"
proof -
  from assms obtain v where t: "generateTraced rng d pos = Some (lvl, v)"
    by (auto simp add: generateRandomLevel_def)
  from generateTraced_props[OF t]
  have p: "gridOK (configs d) (parsedGrid lvl)"
    "length (initialBoxes lvl) = cfg_boxes (configs d)"
    "initialPlayer lvl \<notin> set (lvl_goals lvl)"
    "v \<longrightarrow> (\<forall>b \<in> set (initialBoxes lvl). b \<notin> set (lvl_goals lvl))"
    by simp_all
  from p(1) have shape: "int (length (parsedGrid lvl)) = cfg_height (configs d)"
    "\<forall>row \<in> set (parsedGrid lvl). int (length row) = cfg_width (configs d)"
    by (simp_all add: gridOK_def)
  from gridOK_ring[OF p(1)] have ring: "\<forall>x y. onRing (configs d) x y \<longrightarrow> gridAt (parsedGrid lvl) x y = Some CHR ''#''"
    by blast
  from t p(2,3,4) shape ring show ?thesis by blast
qed

lemma generated_level_properties_example:
  "generateRandomLevel easyDraws Easy 0 =
     Some \<lparr>parsedGrid = easyGrid, initialPlayer = \<lparr>pt_x = 4, pt_y = 3\<rparr>,
            initialBoxes = [\<lparr>pt_x = 2, pt_y = 3\<rparr>], lvl_goals = [\<lparr>pt_x = 3, pt_y = 3\<rparr>]\<rparr> \<and>
   generateTraced easyDraws Easy 0 =
     Some (\<lparr>parsedGrid = easyGrid, initialPlayer = \<lparr>pt_x = 4, pt_y = 3\<rparr>,
            initialBoxes = [\<lparr>pt_x = 2, pt_y = 3\<rparr>], lvl_goals = [\<lparr>pt_x = 3, pt_y = 3\<rparr>]\<rparr>, True) \<and>
   onRing (configs Easy) 7 3 \<and> gridAt easyGrid 7 3 = Some CHR ''#'' \<and>
   \<lparr>pt_x = 2, pt_y = 3\<rparr> \<notin> set [\<lparr>pt_x = 3, pt_y = 3\<rparr>]"
proof -
  have g: "generateRandomLevel easyDraws Easy 0 =
     Some \<lparr>parsedGrid = easyGrid, initialPlayer = \<lparr>pt_x = 4, pt_y = 3\<rparr>,
            initialBoxes = [\<lparr>pt_x = 2, pt_y = 3\<rparr>], lvl_goals = [\<lparr>pt_x = 3, pt_y = 3\<rparr>]\<rparr>"
    by (simp add: generateRandomLevel_def easy_run)
  have r: "onRing (configs Easy) 7 3" by (simp add: onRing_def)
  from generated_level_properties[OF g] easy_run r g show ?thesis by simp
qed

text \<open>The run of the tier \<^verbatim>\<open>medium\<close> on draws that leave no cell for a box to go to.\<close>

lemma medium_cfg:
  "cfg_width (configs Medium) = 10" "cfg_height (configs Medium) = 8"
  "cfg_boxes (configs Medium) = 2" "cfg_moves (configs Medium) = 40"
  by simp_all

lemma repairRound_pair:
  "repairRound rng cfg g gls p ([a, b], pos) =
     repairBox rng cfg g gls p 1 (repairBox rng cfg g gls p 0 ([a, b], True, pos))"
  by (simp add: repairRound_def numeral_2_eq_2)

lemma medium_tail: "20 \<le> pos \<Longrightarrow> mediumDraws pos = 0"
  by (simp add: mediumDraws_def drawsFrom_def)

lemma medium_placed:
  "placeWallsAndGoals mediumDraws (configs Medium) 0 =
     (mediumGrid, [\<lparr>pt_x = 2, pt_y = 3\<rparr>, \<lparr>pt_x = 4, pt_y = 3\<rparr>], 20)"
  by code_simp

lemma medium_player:
  "choosePlayer (configs Medium) mediumGrid [\<lparr>pt_x = 2, pt_y = 3\<rparr>, \<lparr>pt_x = 4, pt_y = 3\<rparr>] [1..6]
     \<lparr>pt_x = 2, pt_y = 2\<rparr> = \<lparr>pt_x = 1, pt_y = 1\<rparr>"
  by code_simp

lemma medium_facts:
  "gridAt mediumGrid 1 3 = Some CHR '' ''"
  "gridAt mediumGrid 3 3 = Some CHR '' ''"
  "countWallNeighbors mediumGrid 1 3 = 4"
  "\<not> otherBoxAt [\<lparr>pt_x = 2, pt_y = 3\<rparr>, \<lparr>pt_x = 4, pt_y = 3\<rparr>] 0 1 3"
  "\<not> list_ex (atCell 3 3) [\<lparr>pt_x = 2, pt_y = 3\<rparr>, \<lparr>pt_x = 4, pt_y = 3\<rparr>]"
  "list_ex (atCell 2 3) [\<lparr>pt_x = 2, pt_y = 3\<rparr>, \<lparr>pt_x = 4, pt_y = 3\<rparr>]"
  "list_ex (atCell 4 3) [\<lparr>pt_x = 2, pt_y = 3\<rparr>, \<lparr>pt_x = 4, pt_y = 3\<rparr>]"
  "\<not> validTarget mediumGrid [\<lparr>pt_x = 2, pt_y = 3\<rparr>, \<lparr>pt_x = 4, pt_y = 3\<rparr>]
       [\<lparr>pt_x = 2, pt_y = 3\<rparr>, \<lparr>pt_x = 4, pt_y = 3\<rparr>] \<lparr>pt_x = 1, pt_y = 1\<rparr> 0 1 1"
  "\<not> validTarget mediumGrid [\<lparr>pt_x = 2, pt_y = 3\<rparr>, \<lparr>pt_x = 4, pt_y = 3\<rparr>]
       [\<lparr>pt_x = 2, pt_y = 3\<rparr>, \<lparr>pt_x = 4, pt_y = 3\<rparr>] \<lparr>pt_x = 1, pt_y = 1\<rparr> (Suc 0) 1 1"
  "find (\<lambda>c. validTarget mediumGrid [\<lparr>pt_x = 2, pt_y = 3\<rparr>, \<lparr>pt_x = 4, pt_y = 3\<rparr>]
                 [\<lparr>pt_x = 2, pt_y = 3\<rparr>, \<lparr>pt_x = 4, pt_y = 3\<rparr>]
                 \<lparr>pt_x = 1, pt_y = 1\<rparr> 0 (fst c) (snd c)) (scanCells (configs Medium)) = None"
  "find (\<lambda>c. validTarget mediumGrid [\<lparr>pt_x = 2, pt_y = 3\<rparr>, \<lparr>pt_x = 4, pt_y = 3\<rparr>]
                 [\<lparr>pt_x = 2, pt_y = 3\<rparr>, \<lparr>pt_x = 4, pt_y = 3\<rparr>]
                 \<lparr>pt_x = 1, pt_y = 1\<rparr> (Suc 0) (fst c) (snd c)) (scanCells (configs Medium)) = None"
  "relocatePlayer (configs Medium) mediumGrid [\<lparr>pt_x = 2, pt_y = 3\<rparr>, \<lparr>pt_x = 4, pt_y = 3\<rparr>]
     [\<lparr>pt_x = 2, pt_y = 3\<rparr>, \<lparr>pt_x = 4, pt_y = 3\<rparr>] \<lparr>pt_x = 1, pt_y = 1\<rparr> = \<lparr>pt_x = 1, pt_y = 1\<rparr>"
  by code_simp+

lemma medium_pull:
  assumes "20 \<le> pos"
  shows "pullStep mediumDraws (configs Medium) mediumGrid
           ([\<lparr>pt_x = 2, pt_y = 3\<rparr>, \<lparr>pt_x = 4, pt_y = 3\<rparr>], \<lparr>pt_x = 1, pt_y = 1\<rparr>, k, pos) =
         ([\<lparr>pt_x = 2, pt_y = 3\<rparr>, \<lparr>pt_x = 4, pt_y = 3\<rparr>], \<lparr>pt_x = 1, pt_y = 1\<rparr>, k, pos + 2)"
  using assms
  by (simp add: pullStep_def Let_def medium_tail dirs_def medium_facts medium_cfg
      del: configs.simps)

lemma medium_round:
  assumes "20 \<le> pos"
  shows "repairRound mediumDraws (configs Medium) mediumGrid
           [\<lparr>pt_x = 2, pt_y = 3\<rparr>, \<lparr>pt_x = 4, pt_y = 3\<rparr>] \<lparr>pt_x = 1, pt_y = 1\<rparr>
           ([\<lparr>pt_x = 2, pt_y = 3\<rparr>, \<lparr>pt_x = 4, pt_y = 3\<rparr>], pos) =
         ([\<lparr>pt_x = 2, pt_y = 3\<rparr>, \<lparr>pt_x = 4, pt_y = 3\<rparr>], False, pos + 200)"
proof -
  have t0: "tryRandom mediumDraws (configs Medium)
             (validTarget mediumGrid [\<lparr>pt_x = 2, pt_y = 3\<rparr>, \<lparr>pt_x = 4, pt_y = 3\<rparr>]
                [\<lparr>pt_x = 2, pt_y = 3\<rparr>, \<lparr>pt_x = 4, pt_y = 3\<rparr>] \<lparr>pt_x = 1, pt_y = 1\<rparr> 0)
             50 pos = (None, pos + 2 * 50)"
    by (rule tryRandom_stuck[where ?p0.0 = 20]) (simp_all add: medium_tail medium_facts assms)
  have t1: "tryRandom mediumDraws (configs Medium)
             (validTarget mediumGrid [\<lparr>pt_x = 2, pt_y = 3\<rparr>, \<lparr>pt_x = 4, pt_y = 3\<rparr>]
                [\<lparr>pt_x = 2, pt_y = 3\<rparr>, \<lparr>pt_x = 4, pt_y = 3\<rparr>] \<lparr>pt_x = 1, pt_y = 1\<rparr> (Suc 0))
             50 (pos + 100) = (None, pos + 100 + 2 * 50)"
    by (rule tryRandom_stuck[where ?p0.0 = 20]) (simp_all add: medium_tail medium_facts assms)
  have r0: "repairBox mediumDraws (configs Medium) mediumGrid
              [\<lparr>pt_x = 2, pt_y = 3\<rparr>, \<lparr>pt_x = 4, pt_y = 3\<rparr>] \<lparr>pt_x = 1, pt_y = 1\<rparr> 0
              ([\<lparr>pt_x = 2, pt_y = 3\<rparr>, \<lparr>pt_x = 4, pt_y = 3\<rparr>], True, pos) =
            ([\<lparr>pt_x = 2, pt_y = 3\<rparr>, \<lparr>pt_x = 4, pt_y = 3\<rparr>], False, pos + 100)"
    using t0 by (simp add: repairBox_unfold medium_facts atCell_def del: configs.simps)
  have r1: "repairBox mediumDraws (configs Medium) mediumGrid
              [\<lparr>pt_x = 2, pt_y = 3\<rparr>, \<lparr>pt_x = 4, pt_y = 3\<rparr>] \<lparr>pt_x = 1, pt_y = 1\<rparr> (Suc 0)
              ([\<lparr>pt_x = 2, pt_y = 3\<rparr>, \<lparr>pt_x = 4, pt_y = 3\<rparr>], False, pos + 100) =
            ([\<lparr>pt_x = 2, pt_y = 3\<rparr>, \<lparr>pt_x = 4, pt_y = 3\<rparr>], False, pos + 200)"
    using t1 by (simp add: repairBox_unfold medium_facts atCell_def del: configs.simps)
  show ?thesis
    by (simp add: repairRound_pair r0 r1 del: configs.simps)
qed

lemma medium_finish:
  "finishLevel mediumDraws (configs Medium) mediumGrid
     [\<lparr>pt_x = 2, pt_y = 3\<rparr>, \<lparr>pt_x = 4, pt_y = 3\<rparr>] 20 =
     (\<lparr>parsedGrid = mediumGrid, initialPlayer = \<lparr>pt_x = 1, pt_y = 1\<rparr>,
       initialBoxes = [\<lparr>pt_x = 2, pt_y = 3\<rparr>, \<lparr>pt_x = 4, pt_y = 3\<rparr>],
       lvl_goals = [\<lparr>pt_x = 2, pt_y = 3\<rparr>, \<lparr>pt_x = 4, pt_y = 3\<rparr>]\<rparr>, False)"
proof -
  have "pullLoop mediumDraws (configs Medium) mediumGrid 200
              ([\<lparr>pt_x = 2, pt_y = 3\<rparr>, \<lparr>pt_x = 4, pt_y = 3\<rparr>], \<lparr>pt_x = 1, pt_y = 1\<rparr>, 0, 20) =
            ([\<lparr>pt_x = 2, pt_y = 3\<rparr>, \<lparr>pt_x = 4, pt_y = 3\<rparr>], \<lparr>pt_x = 1, pt_y = 1\<rparr>, 0, 20 + 2 * 200)"
    by (rule pullLoop_stuck[where ?p0.0 = 20]) (simp_all add: medium_pull medium_cfg del: configs.simps)
  then have pl: "pullLoop mediumDraws (configs Medium) mediumGrid 200
              ([\<lparr>pt_x = 2, pt_y = 3\<rparr>, \<lparr>pt_x = 4, pt_y = 3\<rparr>], \<lparr>pt_x = 1, pt_y = 1\<rparr>, 0, 20) =
            ([\<lparr>pt_x = 2, pt_y = 3\<rparr>, \<lparr>pt_x = 4, pt_y = 3\<rparr>], \<lparr>pt_x = 1, pt_y = 1\<rparr>, 0, 420)"
    by simp
  have "repairLoop mediumDraws (configs Medium) mediumGrid
              [\<lparr>pt_x = 2, pt_y = 3\<rparr>, \<lparr>pt_x = 4, pt_y = 3\<rparr>] \<lparr>pt_x = 1, pt_y = 1\<rparr> 500
              ([\<lparr>pt_x = 2, pt_y = 3\<rparr>, \<lparr>pt_x = 4, pt_y = 3\<rparr>], False, 420) =
            ([\<lparr>pt_x = 2, pt_y = 3\<rparr>, \<lparr>pt_x = 4, pt_y = 3\<rparr>], False, 420 + 200 * 500)"
    by (rule repairLoop_stuck[where ?p0.0 = 20]) (simp_all add: medium_round del: configs.simps)
  then have rl: "repairLoop mediumDraws (configs Medium) mediumGrid
              [\<lparr>pt_x = 2, pt_y = 3\<rparr>, \<lparr>pt_x = 4, pt_y = 3\<rparr>] \<lparr>pt_x = 1, pt_y = 1\<rparr> 500
              ([\<lparr>pt_x = 2, pt_y = 3\<rparr>, \<lparr>pt_x = 4, pt_y = 3\<rparr>], False, 420) =
            ([\<lparr>pt_x = 2, pt_y = 3\<rparr>, \<lparr>pt_x = 4, pt_y = 3\<rparr>], False, 100420)"
    by simp
  show ?thesis
    by (simp add: finishLevel_def Let_def medium_player medium_cfg pl rl medium_facts del: configs.simps)
qed

lemma medium_run:
  "generateTraced mediumDraws Medium 0 =
     Some (\<lparr>parsedGrid = mediumGrid, initialPlayer = \<lparr>pt_x = 1, pt_y = 1\<rparr>,
            initialBoxes = [\<lparr>pt_x = 2, pt_y = 3\<rparr>, \<lparr>pt_x = 4, pt_y = 3\<rparr>],
            lvl_goals = [\<lparr>pt_x = 2, pt_y = 3\<rparr>, \<lparr>pt_x = 4, pt_y = 3\<rparr>]\<rparr>, False)"
  by (subst generateTraced.simps) (simp add: medium_placed medium_finish medium_cfg del: configs.simps)

text \<open>
  Claim C8 fails on the code: the generator returns levels whose boxes start on goals.
  In the tier \<^verbatim>\<open>medium\<close>, when the draws put the eight walls on \<open>(2, 2)\<close>, \<open>(3, 2)\<close>,
  \<open>(5, 2)\<close>, \<open>(7, 2)\<close>, \<open>(3, 4)\<close>, \<open>(6, 4)\<close>, \<open>(3, 5)\<close>, \<open>(6, 5)\<close> and the goals on
  \<open>(2, 3)\<close> and \<open>(4, 3)\<close>, and every later draw is 0, no pull succeeds, every free cell
  has two walls or more around it, so no cell passes the test of the repair pass in any
  of its 500 rounds, and the level is returned with both boxes on their goals. In the
  tier \<^verbatim>\<open>easy\<close>, with the four walls on \<open>(2, 3)\<close>, \<open>(3, 3)\<close>, \<open>(4, 3)\<close>, \<open>(5, 3)\<close> and
  the goal on \<open>(2, 2)\<close>, the level is returned with its box on the goal in the same way.
\<close>

theorem generated_box_left_on_goal:
  "generateRandomLevel mediumDraws Medium 0 =
     Some \<lparr>parsedGrid = mediumGrid, initialPlayer = \<lparr>pt_x = 1, pt_y = 1\<rparr>,
            initialBoxes = [\<lparr>pt_x = 2, pt_y = 3\<rparr>, \<lparr>pt_x = 4, pt_y = 3\<rparr>],
            lvl_goals = [\<lparr>pt_x = 2, pt_y = 3\<rparr>, \<lparr>pt_x = 4, pt_y = 3\<rparr>]\<rparr> \<and>
   generateRandomLevel wallRowDraws Easy 0 =
     Some \<lparr>parsedGrid = wallRowGrid, initialPlayer = \<lparr>pt_x = 1, pt_y = 1\<rparr>,
            initialBoxes = [\<lparr>pt_x = 2, pt_y = 2\<rparr>], lvl_goals = [\<lparr>pt_x = 2, pt_y = 2\<rparr>]\<rparr>"
  by (simp add: generateRandomLevel_def wallRow_run medium_run)

text \<open>The estimator on the two samples.\<close>

lemma twoSamples_sorted: "sort_key fst twoSamples = twoSamples"
  by (simp add: twoSamples_def)

lemma twoSamples_pair:
  "pickPair twoSamples h [0..<length twoSamples - 1] = ((25, 1000), (50, 16000))"
  by (simp add: twoSamples_def)

lemma twoSamples_lookup:
  "map_of twoSamples h = (if h = 25 then Some 1000 else if h = 50 then Some 16000 else None)"
  by (simp add: twoSamples_def)

lemma estimate_direct:
  "map_of timings h = Some v \<Longrightarrow> estimateMsForSteps M timings h = v"
  by (simp add: estimateMsForSteps_def)

lemma estimate_fitted:
  assumes "h \<noteq> 25" "h \<noteq> 50"
  shows "estimateMsForSteps M twoSamples h =
           math_round M (1000 / math_pow M 25 (math_log M 16 / math_log M 2) *
                         math_pow M (of_int h) (math_log M 16 / math_log M 2))"
  using assms
  by (simp add: estimateMsForSteps_def twoSamples_lookup twoSamples_sorted twoSamples_pair Let_def)
    (simp add: twoSamples_def)

lemma ln16: "ln (16::real) / ln 2 = 4"
proof -
  have "ln (16::real) = ln (2 ^ 4)" by simp
  also have "\<dots> = 4 * ln 2" by (simp only: ln_realpow)
  finally show ?thesis by simp
qed

lemma exact_estimate:
  assumes "0 < h"
  shows "estimateMsForSteps exactMath twoSamples h = of_int ((16 * h ^ 4 + 3125) div 6250)"
proof -
  have r: "js_round (1000 / 390625 * (of_int h) ^ 4) = of_int ((16 * h ^ 4 + 3125) div 6250)"
  proof -
    have "1000 / 390625 * (of_int h :: real) ^ 4 + 1 / 2 = of_int (16 * h ^ 4 + 3125) / of_int 6250"
      by simp
    then show ?thesis
      unfolding js_round_def by (simp only: floor_divide_of_int_eq)
  qed
  have pw: "(of_int h :: real) powr 4 = (of_int h) ^ 4" using assms by simp
  show ?thesis
  proof (cases "h = 25 \<or> h = 50")
    case True
    then show ?thesis by (auto simp add: estimate_direct twoSamples_lookup)
  next
    case False
    then show ?thesis
      using r pw by (simp add: estimate_fitted exactMath_def ln16)
  qed
qed






text \<open>After rounding, the horizons 1, 2 and 3 all give 0; the horizon 4 gives 1.\<close>

lemma estimate_low:
  "estimateMsForSteps exactMath twoSamples 1 = 0 \<and> estimateMsForSteps exactMath twoSamples 2 = 0 \<and>
   estimateMsForSteps exactMath twoSamples 3 = 0 \<and> estimateMsForSteps exactMath twoSamples 4 = 1"
  by (simp add: exact_estimate)



end
